theory Spec2Isabelle
  imports Complex_Main "HOL-Library.Signed_Division"
begin

section \<open>Particle simulation: the per-frame pipeline of main.cpp\<close>

text \<open>
  The embedding follows \<^verbatim>\<open>src/particles/main.cpp\<close>.

  \<^item> A C++ \<^verbatim>\<open>float\<close> is a value of the type \<open>fp\<close> below: a finite binary32 number, one
    of the two infinities, or NaN. Every operation on floats is the exact operation
    followed by rounding to the nearest binary32 number, ties to even, with gradual
    underflow and with overflow to an infinity. An expression is evaluated operation by
    operation in binary32, in the order in which it is written (no fused multiply-add
    and no wider intermediate format). The sign of a zero is not represented.

  \<^item> A C++ \<^verbatim>\<open>double\<close> is a \<^typ>\<open>real\<close>. The buffers of positions, velocities and
    accelerations hold doubles; the arithmetic of the integrator, which is done in
    doubles, is taken as exact. The conversion of a float to a double is exact; the
    conversion of a double to a float is the rounding \<open>to_float\<close>.

  \<^item> A C++ \<^verbatim>\<open>int\<close> is an \<^typ>\<open>int\<close>; the conversion of a float to \<^verbatim>\<open>int\<close> has a result
    only where the language defines one. Container sizes and indices are \<^typ>\<open>nat\<close>.

  \<^item> The threads of the resolver run one after the other, in the order in which they
    are spawned. The pair block is split into its reads and its writes, so that a run
    in which two blocks overlap can be written down as well.
\<close>

subsection \<open>Binary32 arithmetic\<close>

text \<open>
  The binary exponent of a real number that is not zero: \<open>2 powi bexp v \<le> \<bar>v\<bar>\<close> and
  \<open>\<bar>v\<bar> < 2 powi (bexp v + 1)\<close>. A binary32 number with this exponent is a multiple of
  \<open>2 powi (bexp v - 23)\<close> (24 significant bits); below the normal range it is a
  multiple of \<open>2 powi (- 149)\<close>.
\<close>

definition bexp :: "real \<Rightarrow> int" where
  "bexp v = \<lfloor>log 2 \<bar>v\<bar>\<rfloor>"

definition fexp :: "real \<Rightarrow> int" where
  "fexp v = max (bexp v - 23) (- 149)"

text \<open>Rounding of a real number to the nearest integer, a tie going to the even one.\<close>

definition round_even :: "real \<Rightarrow> int" where
  "round_even y =
     (let f = \<lfloor>y\<rfloor>;
          d = y - of_int f
      in if d < 1 / 2 then f
         else if 1 / 2 < d then f + 1
         else if even f then f else f + 1)"

text \<open>Rounding to the nearest number with 24 significant bits, before the test for
  overflow.\<close>

definition rnd :: "real \<Rightarrow> real" where
  "rnd v = of_int (round_even (v / 2 powi fexp v)) * 2 powi fexp v"

text \<open>The values of a \<^verbatim>\<open>float\<close>. \<open>to_float\<close> is the conversion of an exact result to
  binary32: a rounded value of magnitude \<open>2 ^ 128\<close> or more has left the finite range
  (the largest finite number is \<open>2 ^ 128 - 2 ^ 104\<close>).\<close>

datatype fp = Fin real | PInf | NInf | NaN

definition to_float :: "real \<Rightarrow> fp" where
  "to_float v =
     (let r = rnd v
      in if 2 ^ 128 \<le> r then PInf
         else if r \<le> - (2 ^ 128) then NInf
         else Fin r)"

text \<open>A real number is a binary32 number: the conversion returns it unchanged.\<close>

definition is_float :: "real \<Rightarrow> bool" where
  "is_float v = (to_float v = Fin v)"

text \<open>The operations \<^verbatim>\<open>-\<close> (unary), \<^verbatim>\<open>+\<close>, \<^verbatim>\<open>-\<close>, \<^verbatim>\<open>*\<close>, \<^verbatim>\<open>/\<close>, \<^verbatim>\<open>std::sqrt\<close>, \<^verbatim>\<open><\<close> and
  \<^verbatim>\<open>==\<close> on floats, with the IEEE rules for the infinities and NaN. A comparison with
  NaN is false. Since the sign of a zero is not represented, a division of a number
  other than zero by zero takes the zero as positive; the program divides only by
  \<^verbatim>\<open>distance\<close>, which is never zero at that point.\<close>

fun fneg :: "fp \<Rightarrow> fp" where
  "fneg (Fin a) = Fin (- a)"
| "fneg PInf = NInf"
| "fneg NInf = PInf"
| "fneg NaN = NaN"

fun fadd :: "fp \<Rightarrow> fp \<Rightarrow> fp" where
  "fadd (Fin a) (Fin b) = to_float (a + b)"
| "fadd NaN b = NaN"
| "fadd a NaN = NaN"
| "fadd PInf NInf = NaN"
| "fadd NInf PInf = NaN"
| "fadd PInf b = PInf"
| "fadd a PInf = PInf"
| "fadd NInf b = NInf"
| "fadd a NInf = NInf"

definition fsub :: "fp \<Rightarrow> fp \<Rightarrow> fp" where
  "fsub a b = fadd a (fneg b)"

definition signed_inf :: "bool \<Rightarrow> fp" where
  "signed_inf positive = (if positive then PInf else NInf)"

fun fmul :: "fp \<Rightarrow> fp \<Rightarrow> fp" where
  "fmul (Fin a) (Fin b) = to_float (a * b)"
| "fmul NaN b = NaN"
| "fmul a NaN = NaN"
| "fmul (Fin a) PInf = (if a = 0 then NaN else signed_inf (0 < a))"
| "fmul (Fin a) NInf = (if a = 0 then NaN else signed_inf (a < 0))"
| "fmul PInf (Fin b) = (if b = 0 then NaN else signed_inf (0 < b))"
| "fmul NInf (Fin b) = (if b = 0 then NaN else signed_inf (b < 0))"
| "fmul PInf PInf = PInf"
| "fmul NInf NInf = PInf"
| "fmul PInf NInf = NInf"
| "fmul NInf PInf = NInf"

fun fdiv :: "fp \<Rightarrow> fp \<Rightarrow> fp" where
  "fdiv (Fin a) (Fin b) =
     (if b = 0 then (if a = 0 then NaN else signed_inf (0 < a)) else to_float (a / b))"
| "fdiv NaN b = NaN"
| "fdiv a NaN = NaN"
| "fdiv (Fin a) PInf = Fin 0"
| "fdiv (Fin a) NInf = Fin 0"
| "fdiv PInf (Fin b) = signed_inf (0 \<le> b)"
| "fdiv NInf (Fin b) = signed_inf (b < 0)"
| "fdiv PInf PInf = NaN"
| "fdiv PInf NInf = NaN"
| "fdiv NInf PInf = NaN"
| "fdiv NInf NInf = NaN"

fun fsqrt :: "fp \<Rightarrow> fp" where
  "fsqrt (Fin a) = (if a < 0 then NaN else to_float (sqrt a))"
| "fsqrt PInf = PInf"
| "fsqrt NInf = NaN"
| "fsqrt NaN = NaN"

fun flt :: "fp \<Rightarrow> fp \<Rightarrow> bool" where
  "flt (Fin a) (Fin b) = (a < b)"
| "flt NaN b = False"
| "flt a NaN = False"
| "flt PInf b = False"
| "flt a NInf = False"
| "flt a PInf = True"
| "flt NInf b = True"

fun feq :: "fp \<Rightarrow> fp \<Rightarrow> bool" where
  "feq (Fin a) (Fin b) = (a = b)"
| "feq PInf PInf = True"
| "feq NInf NInf = True"
| "feq a b = False"

subsection \<open>Constants\<close>

definition DIMENSION :: nat where
  "DIMENSION = 2"

definition X :: nat where
  "X = 0"

definition Y :: nat where
  "Y = 1"

definition CELL_SIZE :: int where
  "CELL_SIZE = 10"

text \<open>\<^verbatim>\<open>#define ENTROPY 0.01f\<close> of defs.h: the literal denotes the binary32 number nearest
  to \<open>1 / 100\<close>, which is \<open>to_float ENTROPY\<close>. The functions below take the damping
  coefficient as a parameter, so that they can be studied at other values too, and
  convert it to binary32 where the program uses it.\<close>

definition ENTROPY :: real where
  "ENTROPY = 1 / 100"

subsection \<open>Cell keys\<close>

datatype CellKey = CellKey (cx: int) (cy: int)

text \<open>\<^verbatim>\<open>static_cast<float>(d)\<close> on a double: rounding to the nearest float, and an
  infinity beyond the finite range, as IEEE 754 defines the conversion.\<close>

definition static_cast_float :: "real \<Rightarrow> fp" where
  "static_cast_float v = to_float v"

text \<open>\<^verbatim>\<open>static_cast<int>(x)\<close> on a float discards the fractional part, that is, it rounds
  toward zero. The result is defined only if the truncated value is a 32-bit \<^verbatim>\<open>int\<close>;
  for any other finite value, for an infinity and for NaN the behaviour of the program
  is undefined, which is the result \<^const>\<open>None\<close> here.\<close>

definition truncation :: "real \<Rightarrow> int" where
  "truncation v = (if 0 \<le> v then \<lfloor>v\<rfloor> else \<lceil>v\<rceil>)"

definition static_cast_int :: "fp \<Rightarrow> int option" where
  "static_cast_int a =
     (case a of
        Fin v \<Rightarrow>
          (let t = truncation v
           in if - (2 ^ 31) \<le> t \<and> t < 2 ^ 31 then Some t else None)
      | PInf \<Rightarrow> None
      | NInf \<Rightarrow> None
      | NaN \<Rightarrow> None)"

text \<open>The C++ operator \<^verbatim>\<open>/\<close> on \<^verbatim>\<open>int\<close> truncates toward zero as well: it is
  \<^term>\<open>(sdiv)\<close>, not \<^term>\<open>(div)\<close>. The quotient by 10 of a 32-bit \<^verbatim>\<open>int\<close> is one
  again.\<close>

definition computeCellKey :: "fp \<Rightarrow> fp \<Rightarrow> CellKey option" where
  "computeCellKey px py =
     (case static_cast_int px of
        None \<Rightarrow> None
      | Some a \<Rightarrow>
          (case static_cast_int py of
             None \<Rightarrow> None
           | Some b \<Rightarrow> Some (CellKey (a sdiv CELL_SIZE) (b sdiv CELL_SIZE))))"

subsection \<open>The state store\<close>

text \<open>
  The three matrices are stored row-major in flat buffers of doubles (\<^verbatim>\<open>matrix::data\<close>),
  one row of \<^const>\<open>DIMENSION\<close> entries per particle. A \<^verbatim>\<open>Particle\<close> holds pointers to its
  rows, so \<^verbatim>\<open>particles[i]->pos[X]\<close> is entry \<open>i * DIMENSION + X\<close> of the position buffer.
  The program reads and writes these buffers only at indices below their length.

  The last three fields are ghost state, absent from the program. \<open>detected\<close> records,
  in order, each pair for which the collision test of the resolver succeeded.
  \<open>nonfinite\<close> is set when the resolver stores an infinity or NaN into the velocity
  buffer: a \<^typ>\<open>real\<close> cannot hold such a value, so the entry is left as it was, and from
  then on the velocity buffer of the model no longer describes that of the program.
  \<open>undefined_cast\<close> is set when the grid rebuild converts a coordinate to \<^verbatim>\<open>int\<close> that
  has no defined result.
\<close>

text \<open>Modelled from the spec: the class \<^verbatim>\<open>Particle\<close> is declared in particle.h, which
  is not part of the sources at hand. The spec gives each particle a constant
  \<^verbatim>\<open>radius\<close> of type float, and main.cpp passes the float \<^verbatim>\<open>RADIUS\<close> to the constructor;
  the entries of \<open>radius\<close> are therefore meant to be binary32 numbers, and
  \<^verbatim>\<open>particles[i]->radius\<close> is entry \<open>i\<close> of \<open>radius\<close>.\<close>

record sim =
  positions :: "real list"
  velocities :: "real list"
  accelerations :: "real list"
  radius :: "real list"
  detected :: "(nat \<times> nat) list"
  nonfinite :: bool
  undefined_cast :: bool

definition pos :: "sim \<Rightarrow> nat \<Rightarrow> nat \<Rightarrow> real" where
  "pos st i d = positions st ! (i * DIMENSION + d)"

definition vel :: "sim \<Rightarrow> nat \<Rightarrow> nat \<Rightarrow> real" where
  "vel st i d = velocities st ! (i * DIMENSION + d)"

definition set_vel :: "nat \<Rightarrow> nat \<Rightarrow> real \<Rightarrow> sim \<Rightarrow> sim" where
  "set_vel i d v st = st\<lparr>velocities := (velocities st)[i * DIMENSION + d := v]\<rparr>"

text \<open>The assignment of a float to an entry of the velocity buffer
  (\<^verbatim>\<open>particles[i]->vel[X] = ...\<close>).\<close>

definition store_vel :: "nat \<Rightarrow> nat \<Rightarrow> fp \<Rightarrow> sim \<Rightarrow> sim" where
  "store_vel i d a st =
     (case a of
        Fin v \<Rightarrow> set_vel i d v st
      | PInf \<Rightarrow> st\<lparr>nonfinite := True\<rparr>
      | NInf \<Rightarrow> st\<lparr>nonfinite := True\<rparr>
      | NaN \<Rightarrow> st\<lparr>nonfinite := True\<rparr>)"

subsection \<open>Integrator (main.cpp lines 104 to 109)\<close>

text \<open>Modelled from the spec: \<^verbatim>\<open>cblas_daxpy\<close> is declared in cblas.h, which is not part
  of the sources at hand. The spec describes it as the bulk operation that adds to
  buffer A the elementwise product of a scalar and buffer B; with both strides 1 the call
  \<^verbatim>\<open>cblas_daxpy(n, alpha, x, 1, y, 1)\<close> replaces \<open>y[k]\<close> by \<open>alpha * x[k] + y[k]\<close> for
  every \<open>k < n\<close>.\<close>

definition cblas_daxpy :: "nat \<Rightarrow> real \<Rightarrow> real list \<Rightarrow> real list \<Rightarrow> real list" where
  "cblas_daxpy n alpha xs ys =
     map (\<lambda>k. if k < n then alpha * xs ! k + ys ! k else ys ! k) [0..<length ys]"

text \<open>The two calls of the frame loop, in their order. Both pass
  \<^verbatim>\<open>positions.data.size()\<close> as the length. The value \<open>dt\<close> comes straight from the
  frame clock; the program applies no test to it.\<close>

definition integrate :: "real \<Rightarrow> sim \<Rightarrow> sim" where
  "integrate dt st =
     (let st1 = st\<lparr>positions :=
                  cblas_daxpy (length (positions st)) dt (velocities st) (positions st)\<rparr>;
          st2 = st1\<lparr>velocities :=
                  cblas_daxpy (length (positions st1)) dt (accelerations st1) (velocities st1)\<rparr>
      in st2)"

subsection \<open>Grid rebuild (main.cpp lines 118 to 124)\<close>

text \<open>One turn of the loop: the two coordinates are converted to float, the key is
  computed, and \<^verbatim>\<open>grid[key].push_back(i)\<close> appends the index, a missing bucket being
  created empty first. The result is \<^const>\<open>None\<close> if a conversion to \<^verbatim>\<open>int\<close> is
  undefined.\<close>

definition grid_insert ::
  "sim \<Rightarrow> nat \<Rightarrow> (CellKey \<rightharpoonup> nat list) \<Rightarrow> (CellKey \<rightharpoonup> nat list) option" where
  "grid_insert st i grid =
     (let px = static_cast_float (pos st i X);
          py = static_cast_float (pos st i Y)
      in case computeCellKey px py of
           None \<Rightarrow> None
         | Some key \<Rightarrow> Some (grid(key \<mapsto> (case grid key of None \<Rightarrow> [] | Some c \<Rightarrow> c) @ [i])))"

definition build_grid :: "nat \<Rightarrow> sim \<Rightarrow> (CellKey \<rightharpoonup> nat list) option" where
  "build_grid n st =
     fold (\<lambda>i g. case g of None \<Rightarrow> None | Some grid \<Rightarrow> grid_insert st i grid)
       [0..<n] (Some Map.empty)"

subsection \<open>Collision resolver (main.cpp lines 135 to 234)\<close>

text \<open>
  The block that tests one pair and applies the impulse occurs twice in
  \<^verbatim>\<open>processCells\<close> (lines 146 to 179 and 194 to 226) with the same text. It is given here
  in two parts.

  \<open>pair_read\<close> is the part that runs without the lock (lines 146 to 171): the four
  coordinates and, if the test succeeds, the four velocity components are converted
  from the doubles in the buffers to floats, and everything is computed in floats from
  these local copies. Its result is the four floats that lines 175 to 178 assign, which
  depend on the local variables only, or \<^const>\<open>None\<close> if the test fails.

  \<open>pair_write\<close> is the part that runs under the lock of the two particles (lines 174 to
  178): the four assignments. Its first step touches the ghost state only: it logs the
  pair.

  \<open>collide\<close> is the block run without interruption.
\<close>

definition pair_read :: "real \<Rightarrow> nat \<Rightarrow> nat \<Rightarrow> sim \<Rightarrow> (fp \<times> fp \<times> fp \<times> fp) option" where
  "pair_read e i j st =
     (let x1 = static_cast_float (pos st i X);
          y1 = static_cast_float (pos st i Y);
          x2 = static_cast_float (pos st j X);
          y2 = static_cast_float (pos st j Y);
          dx = fsub x2 x1;
          dy = fsub y2 y1;
          dist2 = fadd (fmul dx dx) (fmul dy dy);
          radiusSum = fadd (Fin (radius st ! i)) (Fin (radius st ! j))
      in if flt dist2 (fmul radiusSum radiusSum) then
           let distance = fsqrt dist2;
               degenerate = feq distance (Fin 0);
               distance = (if degenerate then to_float (1 / 10) else distance);
               dx = (if degenerate then radiusSum else dx);
               dy = (if degenerate then Fin 0 else dy);
               nx = fdiv dx distance;
               ny = fdiv dy distance;
               v1x = static_cast_float (vel st i X);
               v1y = static_cast_float (vel st i Y);
               v2x = static_cast_float (vel st j X);
               v2y = static_cast_float (vel st j Y);
               relVel = fadd (fmul (fsub v1x v2x) nx) (fmul (fsub v1y v2y) ny);
               impulse = relVel
           in Some (fsub v1x (fmul (fmul impulse nx) (fsub (Fin 1) (to_float e))),
                    fsub v1y (fmul (fmul impulse ny) (fsub (Fin 1) (to_float e))),
                    fadd v2x (fmul (fmul impulse nx) (fsub (Fin 1) (to_float e))),
                    fadd v2y (fmul (fmul impulse ny) (fsub (Fin 1) (to_float e))))
         else None)"

definition pair_write :: "nat \<Rightarrow> nat \<Rightarrow> fp \<times> fp \<times> fp \<times> fp \<Rightarrow> sim \<Rightarrow> sim" where
  "pair_write i j w st =
     (case w of
        (w1x, w1y, w2x, w2y) \<Rightarrow>
          (let st = st\<lparr>detected := detected st @ [(i, j)]\<rparr>;
               st = store_vel i X w1x st;
               st = store_vel i Y w1y st;
               st = store_vel j X w2x st;
               st = store_vel j Y w2y st
           in st))"

definition collide :: "real \<Rightarrow> nat \<Rightarrow> nat \<Rightarrow> sim \<Rightarrow> sim" where
  "collide e i j st =
     (case pair_read e i j st of
        None \<Rightarrow> st
      | Some w \<Rightarrow> pair_write i j w st)"

text \<open>Collisions within one cell: every pair of bucket positions \<open>a < b\<close>.\<close>

definition intra_cell :: "real \<Rightarrow> nat list \<Rightarrow> sim \<Rightarrow> sim" where
  "intra_cell e cellParticles st =
     fold (\<lambda>a. fold (\<lambda>b. collide e (cellParticles ! a) (cellParticles ! b))
                 [a + 1..<length cellParticles])
       [0..<length cellParticles] st"

text \<open>Collisions with the eight neighbouring cells, where they are occupied.\<close>

definition inter_cell ::
  "real \<Rightarrow> (CellKey \<rightharpoonup> nat list) \<Rightarrow> CellKey \<Rightarrow> nat list \<Rightarrow> sim \<Rightarrow> sim" where
  "inter_cell e grid key cellParticles st =
     fold (\<lambda>dx. fold (\<lambda>dy s.
             if dx = 0 \<and> dy = 0 then s
             else
               (let neighborKey = CellKey (cx key + dx) (cy key + dy)
                in case grid neighborKey of
                     None \<Rightarrow> s
                   | Some neighborParticles \<Rightarrow>
                       fold (\<lambda>i. fold (\<lambda>j s'. if i < j then collide e i j s' else s')
                                   neighborParticles)
                         cellParticles s))
           [- 1, 0, 1])
       [- 1, 0, 1] st"

text \<open>\<^verbatim>\<open>processCells(start, end)\<close>. Every key of \<^verbatim>\<open>CellKeys\<close> is a key of the grid, so
  \<^verbatim>\<open>grid[key]\<close> never creates a bucket here.\<close>

definition processCells ::
  "real \<Rightarrow> (CellKey \<rightharpoonup> nat list) \<Rightarrow> CellKey list \<Rightarrow> nat \<Rightarrow> nat \<Rightarrow> sim \<Rightarrow> sim" where
  "processCells e grid CellKeys start endIdx st =
     fold (\<lambda>idx s.
             let key = CellKeys ! idx;
                 cellParticles = (case grid key of None \<Rightarrow> [] | Some c \<Rightarrow> c)
             in inter_cell e grid key cellParticles (intra_cell e cellParticles s))
       [start..<endIdx] st"

subsection \<open>Work partition (main.cpp lines 130 to 133 and 236 to 242)\<close>

text \<open>One turn of the loop that spawns the threads: the state is \<^verbatim>\<open>currentIndex\<close> and
  the ranges handed out so far.\<close>

definition spawn_thread ::
  "nat \<Rightarrow> nat \<Rightarrow> nat \<Rightarrow> nat \<times> (nat \<times> nat) list \<Rightarrow> nat \<times> (nat \<times> nat) list" where
  "spawn_thread cellsPerThread extraCells t acc =
     (let currentIndex = fst acc;
          start = currentIndex;
          count = cellsPerThread + (if t < extraCells then 1 else 0);
          endIdx = start + count
      in (endIdx, snd acc @ [(start, endIdx)]))"

definition thread_ranges :: "nat \<Rightarrow> nat \<Rightarrow> (nat \<times> nat) list" where
  "thread_ranges numThreads totalCells =
     (let cellsPerThread = totalCells div numThreads;
          extraCells = totalCells mod numThreads;
          currentIndex = 0
      in snd (fold (spawn_thread cellsPerThread extraCells) [0..<numThreads]
                (currentIndex, [])))"

text \<open>The cell indices \<open>start, ..., end - 1\<close> of one range.\<close>

definition range_cells :: "nat \<times> nat \<Rightarrow> nat set" where
  "range_cells r = {fst r..<snd r}"

text \<open>One resolver pass, run sequentially: the grid is rebuilt from the positions, and
  the threads do their ranges one after the other in the order they were spawned.
  \<^verbatim>\<open>CellKeys\<close> lists the keys of the grid in the iteration order of the hash map,
  which the language leaves open; it is a parameter here. If the grid rebuild runs into
  an undefined conversion, the pass is not modelled any further: the ghost flag is
  set and the state is left as it was.\<close>

definition resolver_pass :: "real \<Rightarrow> nat \<Rightarrow> nat \<Rightarrow> CellKey list \<Rightarrow> sim \<Rightarrow> sim" where
  "resolver_pass e numThreads n CellKeys st =
     (case build_grid n st of
        None \<Rightarrow> st\<lparr>undefined_cast := True\<rparr>
      | Some grid \<Rightarrow>
          (let totalCells = length CellKeys
           in fold (\<lambda>r. processCells e grid CellKeys (fst r) (snd r))
                (thread_ranges numThreads totalCells) st))"

subsection \<open>Quantities of the pair block, named for the statements\<close>

text \<open>The local variables of the pair block as functions of the state. The lemmas
  \<open>pair_read_eq\<close> and \<open>collide_eq\<close> below show that the block computes exactly these.\<close>

definition radiusSum :: "sim \<Rightarrow> nat \<Rightarrow> nat \<Rightarrow> fp" where
  "radiusSum st i j = fadd (Fin (radius st ! i)) (Fin (radius st ! j))"

definition dist2 :: "sim \<Rightarrow> nat \<Rightarrow> nat \<Rightarrow> fp" where
  "dist2 st i j =
     fadd (fmul (fsub (to_float (pos st j X)) (to_float (pos st i X)))
                (fsub (to_float (pos st j X)) (to_float (pos st i X))))
          (fmul (fsub (to_float (pos st j Y)) (to_float (pos st i Y)))
                (fsub (to_float (pos st j Y)) (to_float (pos st i Y))))"

text \<open>The collision test of lines 155 and 203.\<close>

definition collides :: "sim \<Rightarrow> nat \<Rightarrow> nat \<Rightarrow> bool" where
  "collides st i j = flt (dist2 st i j) (fmul (radiusSum st i j) (radiusSum st i j))"

text \<open>The values of \<^verbatim>\<open>dx\<close>, \<^verbatim>\<open>dy\<close> and \<^verbatim>\<open>distance\<close> after the test for a zero
  distance (lines 156 to 161); \<^verbatim>\<open>distance\<close> is the divisor of the two divisions that
  follow.\<close>

definition separation :: "sim \<Rightarrow> nat \<Rightarrow> nat \<Rightarrow> fp \<times> fp \<times> fp" where
  "separation st i j =
     (if feq (fsqrt (dist2 st i j)) (Fin 0) then (radiusSum st i j, Fin 0, to_float (1 / 10))
      else (fsub (to_float (pos st j X)) (to_float (pos st i X)),
            fsub (to_float (pos st j Y)) (to_float (pos st i Y)),
            fsqrt (dist2 st i j)))"

text \<open>The contact normal \<^verbatim>\<open>(nx, ny)\<close> of lines 162 and 163.\<close>

definition normal :: "sim \<Rightarrow> nat \<Rightarrow> nat \<Rightarrow> fp \<times> fp" where
  "normal st i j =
     (case separation st i j of (dx, dy, distance) \<Rightarrow> (fdiv dx distance, fdiv dy distance))"

text \<open>The float \<^verbatim>\<open>impulse\<close> of lines 170 and 171 for a normal \<open>n\<close>, and the pair of
  floats \<^verbatim>\<open>impulse * nx * (1 - ENTROPY)\<close> and \<^verbatim>\<open>impulse * ny * (1 - ENTROPY)\<close> that is
  subtracted from the velocity of \<open>i\<close> and added to that of \<open>j\<close>.\<close>

definition impulse :: "fp \<times> fp \<Rightarrow> sim \<Rightarrow> nat \<Rightarrow> nat \<Rightarrow> fp" where
  "impulse n st i j =
     fadd (fmul (fsub (to_float (vel st i X)) (to_float (vel st j X))) (fst n))
          (fmul (fsub (to_float (vel st i Y)) (to_float (vel st j Y))) (snd n))"

definition impulse_term :: "real \<Rightarrow> fp \<times> fp \<Rightarrow> sim \<Rightarrow> nat \<Rightarrow> nat \<Rightarrow> fp \<times> fp" where
  "impulse_term e n st i j =
     (fmul (fmul (impulse n st i j) (fst n)) (fsub (Fin 1) (to_float e)),
      fmul (fmul (impulse n st i j) (snd n)) (fsub (Fin 1) (to_float e)))"

text \<open>The four assignments of lines 175 to 178 for a given pair of floats \<open>c\<close>, the
  velocities being those of the state before the block.\<close>

definition apply_impulse :: "nat \<Rightarrow> nat \<Rightarrow> fp \<times> fp \<Rightarrow> sim \<Rightarrow> sim" where
  "apply_impulse i j c st =
     store_vel j Y (fadd (to_float (vel st j Y)) (snd c))
       (store_vel j X (fadd (to_float (vel st j X)) (fst c))
         (store_vel i Y (fsub (to_float (vel st i Y)) (snd c))
           (store_vel i X (fsub (to_float (vel st i X)) (fst c))
             (st\<lparr>detected := detected st @ [(i, j)]\<rparr>))))"

text \<open>The four assignments when all four values are finite.\<close>

definition write_back :: "nat \<Rightarrow> nat \<Rightarrow> real \<Rightarrow> real \<Rightarrow> real \<Rightarrow> real \<Rightarrow> sim \<Rightarrow> sim" where
  "write_back i j ix iy jx jy st =
     set_vel j Y jy (set_vel j X jx (set_vel i Y iy (set_vel i X ix
       (st\<lparr>detected := detected st @ [(i, j)]\<rparr>))))"

text \<open>The velocity of \<open>i\<close> relative to \<open>j\<close> along a direction \<open>n\<close>, as a real number
  computed exactly from the doubles in the velocity buffer. This is the quantity the
  specification speaks of; the float \<^const>\<open>impulse\<close> is what the program computes for
  it.\<close>

definition relVel :: "real \<times> real \<Rightarrow> sim \<Rightarrow> nat \<Rightarrow> nat \<Rightarrow> real" where
  "relVel n st i j = (vel st i X - vel st j X) * fst n + (vel st i Y - vel st j Y) * snd n"

text \<open>Every float operation of lines 165 to 178 is exact for the pair \<open>i\<close>, \<open>j\<close>, the
  normal \<open>n\<close> and the value \<open>k\<close> of \<^verbatim>\<open>1 - ENTROPY\<close>: the four velocity components are
  binary32 numbers, and so is the exact result of each operation on them.\<close>

definition exact_impulse :: "real \<Rightarrow> real \<times> real \<Rightarrow> sim \<Rightarrow> nat \<Rightarrow> nat \<Rightarrow> bool" where
  "exact_impulse k n st i j =
     (is_float (vel st i X) \<and> is_float (vel st i Y)
      \<and> is_float (vel st j X) \<and> is_float (vel st j Y)
      \<and> is_float (vel st i X - vel st j X) \<and> is_float (vel st i Y - vel st j Y)
      \<and> is_float ((vel st i X - vel st j X) * fst n)
      \<and> is_float ((vel st i Y - vel st j Y) * snd n)
      \<and> is_float (relVel n st i j)
      \<and> is_float (relVel n st i j * fst n) \<and> is_float (relVel n st i j * snd n)
      \<and> is_float (relVel n st i j * fst n * k) \<and> is_float (relVel n st i j * snd n * k)
      \<and> is_float (vel st i X - relVel n st i j * fst n * k)
      \<and> is_float (vel st i Y - relVel n st i j * snd n * k)
      \<and> is_float (vel st j X + relVel n st i j * fst n * k)
      \<and> is_float (vel st j Y + relVel n st i j * snd n * k))"

text \<open>Particle \<open>i\<close> has its row in the velocity buffer.\<close>

definition in_store :: "sim \<Rightarrow> nat \<Rightarrow> bool" where
  "in_store st i = (i * DIMENSION + Y < length (velocities st))"

text \<open>The distance of the centres of \<open>i\<close> and \<open>j\<close> as a real number, computed exactly
  from the doubles in the position buffer.\<close>

definition centre_distance :: "sim \<Rightarrow> nat \<Rightarrow> nat \<Rightarrow> real" where
  "centre_distance st i j =
     sqrt ((pos st j X - pos st i X) * (pos st j X - pos st i X)
           + (pos st j Y - pos st i Y) * (pos st j Y - pos st i Y))"

text \<open>The first cell index of thread \<open>t\<close>, for \<open>q\<close> cells per thread and \<open>r\<close> extra
  cells.\<close>

definition chunk_start :: "nat \<Rightarrow> nat \<Rightarrow> nat \<Rightarrow> nat" where
  "chunk_start q r t = t * q + min t r"

subsection \<open>The pairs visited by the scan\<close>

text \<open>The pair block run on a list of pairs, in order.\<close>

definition collide_pairs :: "real \<Rightarrow> (nat \<times> nat) list \<Rightarrow> sim \<Rightarrow> sim" where
  "collide_pairs e ps st = fold (\<lambda>p. collide e (fst p) (snd p)) ps st"

text \<open>The pairs that the loops of \<^const>\<open>intra_cell\<close>, \<^const>\<open>inter_cell\<close> and
  \<^const>\<open>processCells\<close> hand to the pair block, in the order of the loops.\<close>

definition intra_pairs :: "nat list \<Rightarrow> (nat \<times> nat) list" where
  "intra_pairs cellParticles =
     concat (map (\<lambda>a. map (\<lambda>b. (cellParticles ! a, cellParticles ! b))
                         [a + 1..<length cellParticles])
               [0..<length cellParticles])"

definition neighbor_pairs :: "nat list \<Rightarrow> nat list \<Rightarrow> (nat \<times> nat) list" where
  "neighbor_pairs cellParticles neighborParticles =
     concat (map (\<lambda>i. map (\<lambda>j. (i, j)) (filter (\<lambda>j. i < j) neighborParticles)) cellParticles)"

definition inter_pairs :: "(CellKey \<rightharpoonup> nat list) \<Rightarrow> CellKey \<Rightarrow> nat list \<Rightarrow> (nat \<times> nat) list" where
  "inter_pairs grid key cellParticles =
     concat (map (\<lambda>dx. concat (map (\<lambda>dy.
         if dx = 0 \<and> dy = 0 then []
         else (case grid (CellKey (cx key + dx) (cy key + dy)) of
                 None \<Rightarrow> []
               | Some neighborParticles \<Rightarrow> neighbor_pairs cellParticles neighborParticles))
       [- 1, 0, 1])) [- 1, 0, 1])"

definition cell_pairs :: "(CellKey \<rightharpoonup> nat list) \<Rightarrow> CellKey \<Rightarrow> (nat \<times> nat) list" where
  "cell_pairs grid key =
     (let cellParticles = (case grid key of None \<Rightarrow> [] | Some c \<Rightarrow> c)
      in intra_pairs cellParticles @ inter_pairs grid key cellParticles)"

definition scan_pairs :: "(CellKey \<rightharpoonup> nat list) \<Rightarrow> CellKey list \<Rightarrow> nat \<Rightarrow> nat \<Rightarrow> (nat \<times> nat) list" where
  "scan_pairs grid CellKeys start endIdx =
     concat (map (\<lambda>idx. cell_pairs grid (CellKeys ! idx)) [start..<endIdx])"

text \<open>The check of all pairs that serves as the oracle for the scan: the pairs \<open>i < j\<close>
  of the \<open>n\<close> particles for which the test of the program, in its float arithmetic,
  succeeds.\<close>

definition brute_force :: "nat \<Rightarrow> sim \<Rightarrow> (nat \<times> nat) list" where
  "brute_force n st =
     concat (map (\<lambda>i. map (\<lambda>j. (i, j)) (filter (\<lambda>j. collides st i j) [i + 1..<n])) [0..<n])"

subsection \<open>Cells of the particles\<close>

text \<open>One component of a cell key, for a coordinate whose conversion is defined.\<close>

definition cell_coord :: "real \<Rightarrow> int" where
  "cell_coord v = truncation v sdiv CELL_SIZE"

text \<open>The key that the grid rebuild computes for particle \<open>i\<close>, the bucket it fills
  for a key (the particles of that cell in increasing order), and the grid made of
  these buckets.\<close>

definition key_of :: "sim \<Rightarrow> nat \<Rightarrow> CellKey option" where
  "key_of st i = computeCellKey (to_float (pos st i X)) (to_float (pos st i Y))"

definition bucket :: "nat \<Rightarrow> sim \<Rightarrow> CellKey \<Rightarrow> nat list" where
  "bucket n st key = filter (\<lambda>i. key_of st i = Some key) [0..<n]"

definition grid_of :: "nat \<Rightarrow> sim \<Rightarrow> (CellKey \<rightharpoonup> nat list)" where
  "grid_of n st key = (if bucket n st key = [] then None else Some (bucket n st key))"

text \<open>Two keys are grid-neighbours: equal, or different by at most 1 in each axis.\<close>

definition adjacent :: "CellKey \<Rightarrow> CellKey \<Rightarrow> bool" where
  "adjacent k k' = (\<bar>cx k' - cx k\<bar> \<le> 1 \<and> \<bar>cy k' - cy k\<bar> \<le> 1)"

text \<open>The values of the loop variables \<^verbatim>\<open>dx\<close> and \<^verbatim>\<open>dy\<close> of the inter-cell pass.\<close>

definition offsets :: "int list" where
  "offsets = [- 1, 0, 1]"

subsection \<open>Sample states\<close>

text \<open>Two particles of radius 1 at \<open>(0, 0)\<close> and \<open>(1.5, 0)\<close>, approaching head-on.\<close>

definition two_particles :: sim where
  "two_particles =
     \<lparr>positions = [0, 0, 3 / 2, 0], velocities = [1, 0, - 1, 0],
      accelerations = [0, 1000, 0, 1000], radius = [1, 1], detected = [],
      nonfinite = False, undefined_cast = False\<rparr>"


text \<open>Two particles with the same centre, slow and fast.\<close>

definition stacked_pair :: sim where
  "stacked_pair =
     \<lparr>positions = [3, 4, 3, 4], velocities = [1, 2, 0, 0],
      accelerations = [0, 1000, 0, 1000], radius = [1 / 2, 1 / 2], detected = [],
      nonfinite = False, undefined_cast = False\<rparr>"

definition fast_stacked_pair :: sim where
  "fast_stacked_pair =
     \<lparr>positions = [3, 4, 3, 4], velocities = [2 ^ 127, 0, - (2 ^ 127), 0],
      accelerations = [0, 1000, 0, 1000], radius = [1 / 2, 1 / 2], detected = [],
      nonfinite = False, undefined_cast = False\<rparr>"

text \<open>Two overlapping particles on either side of the cell border \<open>x = 10\<close>.\<close>

definition straddling_pair :: sim where
  "straddling_pair =
     \<lparr>positions = [19 / 2, 0, 41 / 4, 0], velocities = [1, 0, - 1, 0],
      accelerations = [0, 1000, 0, 1000], radius = [1 / 2, 1 / 2], detected = [],
      nonfinite = False, undefined_cast = False\<rparr>"

text \<open>Two particles of radius \<open>1 / 2\<close> whose centres are a little less than 1 apart:
  the double \<open>1 - 2\<^sup>-\<^sup>3\<^sup>0\<close> is not a binary32 number.\<close>

definition grazing_pair :: sim where
  "grazing_pair =
     \<lparr>positions = [0, 0, 1 - 1 / 2 ^ 30, 0], velocities = [1, 0, - 1, 0],
      accelerations = [0, 1000, 0, 1000], radius = [1 / 2, 1 / 2], detected = [],
      nonfinite = False, undefined_cast = False\<rparr>"

text \<open>The head-on pair with a common upward velocity \<open>1 + 2\<^sup>-\<^sup>3\<^sup>0\<close>, a double that is
  not a binary32 number.\<close>

definition drifting_pair :: sim where
  "drifting_pair =
     \<lparr>positions = [0, 0, 3 / 2, 0], velocities = [1, 1 + 1 / 2 ^ 30, - 1, 1 + 1 / 2 ^ 30],
      accelerations = [0, 1000, 0, 1000], radius = [1, 1], detected = [],
      nonfinite = False, undefined_cast = False\<rparr>"


text \<open>Three particles of radius 1 in a row, at \<open>x = 9\<close>, \<open>x = 12\<close> and \<open>x = 10.5\<close>: the
  third overlaps the other two, which lie in different cells.\<close>

definition shared_neighbour :: sim where
  "shared_neighbour =
     \<lparr>positions = [9, 0, 12, 0, 21 / 2, 0], velocities = [1, 0, - 1, 0, 0, 0],
      accelerations = [0, 1000, 0, 1000, 0, 1000], radius = [1, 1, 1], detected = [],
      nonfinite = False, undefined_cast = False\<rparr>"

section \<open>Properties\<close>

subsection \<open>Rounding to binary32\<close>

lemma powr_succ: "(2::real) powr (real_of_int k + 1) = 2 powi (k + 1)"
  using powr_real_of_int' [of 2 "k + 1"] by simp

lemma bexp_bounds:
  assumes "v \<noteq> 0"
  shows "2 powi bexp v \<le> \<bar>v\<bar>" and "\<bar>v\<bar> < 2 powi (bexp v + 1)"
proof -
  have p: "0 < \<bar>v\<bar>" using assms by simp
  have "\<lfloor>log 2 \<bar>v\<bar>\<rfloor> = bexp v" by (simp add: bexp_def)
  then have "2 powr (of_int (bexp v)) \<le> \<bar>v\<bar> \<and> \<bar>v\<bar> < 2 powr (of_int (bexp v + 1))"
    using floor_log_eq_powr_iff [OF p, of 2 "bexp v"] by simp
  then show "2 powi bexp v \<le> \<bar>v\<bar>" and "\<bar>v\<bar> < 2 powi (bexp v + 1)"
    by (simp_all add: powr_real_of_int' powr_succ)
qed

lemma bexp_eqI:
  assumes "2 powi k \<le> \<bar>v\<bar>" and "\<bar>v\<bar> < 2 powi (k + 1)"
  shows "bexp v = k"
proof -
  have "(0::real) < 2 powi k" by simp
  with assms(1) have p: "0 < \<bar>v\<bar>" by linarith
  have "2 powr (of_int k) \<le> \<bar>v\<bar> \<and> \<bar>v\<bar> < 2 powr (of_int (k + 1))"
    using assms by (simp add: powr_real_of_int' powr_succ)
  then show ?thesis
    unfolding bexp_def using floor_log_eq_powr_iff [OF p, of 2 k] by simp
qed

lemma bexp_mono:
  assumes "v \<noteq> 0" and "\<bar>v\<bar> \<le> \<bar>w\<bar>"
  shows "bexp v \<le> bexp w"
proof -
  have "0 < \<bar>v\<bar>" using assms(1) by simp
  then have "log 2 \<bar>v\<bar> \<le> log 2 \<bar>w\<bar>"
    using assms(2) by simp
  then show ?thesis
    unfolding bexp_def by (rule floor_mono)
qed

lemma bexp_minus [simp]: "bexp (- v) = bexp v"
  by (simp add: bexp_def)

lemma fexp_minus [simp]: "fexp (- v) = fexp v"
  by (simp add: fexp_def)

lemma fexp_mono: "v \<noteq> 0 \<Longrightarrow> \<bar>v\<bar> \<le> \<bar>w\<bar> \<Longrightarrow> fexp v \<le> fexp w"
  using bexp_mono [of v w] by (simp add: fexp_def)

lemma round_even_of_int [simp]: "round_even (of_int n) = n"
  by (simp add: round_even_def)

lemma round_even_le:
  assumes "y \<le> of_int n"
  shows "round_even y \<le> n"
proof (cases "y = of_int n")
  case True
  then show ?thesis by simp
next
  case False
  with assms have "y < of_int n" by simp
  then have "\<lfloor>y\<rfloor> < n" by (simp add: floor_less_iff)
  then have "\<lfloor>y\<rfloor> + 1 \<le> n" by simp
  then show ?thesis
    by (simp add: round_even_def Let_def)
qed

lemma round_even_ge:
  assumes "of_int n \<le> y"
  shows "n \<le> round_even y"
proof -
  have "n \<le> \<lfloor>y\<rfloor>" using assms by (simp add: le_floor_iff)
  then show ?thesis
    by (simp add: round_even_def Let_def)
qed

lemma round_even_error: "\<bar>of_int (round_even y) - y\<bar> \<le> 1 / 2"
proof -
  have "of_int \<lfloor>y\<rfloor> \<le> y" "y < of_int \<lfloor>y\<rfloor> + 1"
    by linarith+
  then show ?thesis
    by (auto simp add: round_even_def Let_def abs_le_iff)
qed

lemma floor_minus_nonint:
  fixes y :: real
  assumes "y \<noteq> of_int \<lfloor>y\<rfloor>"
  shows "\<lfloor>- y\<rfloor> = - \<lfloor>y\<rfloor> - 1"
proof (rule floor_unique)
  have b: "of_int \<lfloor>y\<rfloor> \<le> y" "y < of_int \<lfloor>y\<rfloor> + 1"
    by linarith+
  with assms have lt: "of_int \<lfloor>y\<rfloor> < y" by linarith
  have c: "real_of_int (- \<lfloor>y\<rfloor> - 1) = - real_of_int \<lfloor>y\<rfloor> - 1"
    by simp
  show "of_int (- \<lfloor>y\<rfloor> - 1) \<le> - y"
    unfolding c using b(2) by linarith
  show "- y < of_int (- \<lfloor>y\<rfloor> - 1) + 1"
    unfolding c using lt by linarith
qed

lemma round_even_minus: "round_even (- y) = - round_even y"
proof (cases "y = of_int \<lfloor>y\<rfloor>")
  case True
  then have "- y = of_int (- \<lfloor>y\<rfloor>)" by simp
  then have "round_even (- y) = - \<lfloor>y\<rfloor>"
    by (simp only: round_even_of_int)
  moreover have "round_even y = \<lfloor>y\<rfloor>"
    using True by (metis round_even_of_int)
  ultimately show ?thesis by simp
next
  case False
  have f: "\<lfloor>- y\<rfloor> = - \<lfloor>y\<rfloor> - 1"
    using False by (rule floor_minus_nonint)
  define d where "d = y - of_int \<lfloor>y\<rfloor>"
  have d: "0 < d" "d < 1"
    using False unfolding d_def by linarith+
  have d': "- y - of_int (- \<lfloor>y\<rfloor> - 1) = 1 - d"
    by (simp add: d_def)
  have ev: "even (- \<lfloor>y\<rfloor> - 1) = odd \<lfloor>y\<rfloor>"
    by simp
  show ?thesis
    unfolding round_even_def Let_def f d' ev d_def [symmetric]
    using d by (cases "d < 1 / 2"; cases "1 / 2 < d"; simp)
qed

lemma round_even_0 [simp]: "round_even 0 = 0"
  using round_even_of_int [of 0] by simp

lemma rnd_0 [simp]: "rnd 0 = 0"
  by (simp add: rnd_def)

lemma rnd_minus: "rnd (- v) = - rnd v"
  by (simp add: rnd_def round_even_minus)

lemma ulp_pos: "(0::real) < 2 powi k"
  by simp

lemma rnd_error: "\<bar>rnd v - v\<bar> \<le> 2 powi fexp v / 2"
proof -
  define u :: real where "u = 2 powi fexp v"
  have u: "0 < u" by (simp add: u_def)
  have "rnd v - v = (of_int (round_even (v / u)) - v / u) * u"
    using u by (simp add: rnd_def u_def field_simps)
  then have "\<bar>rnd v - v\<bar> = \<bar>of_int (round_even (v / u)) - v / u\<bar> * u"
    using u by (simp add: abs_mult)
  also have "\<dots> \<le> 1 / 2 * u"
    using u round_even_error [of "v / u"] by (intro mult_right_mono) simp_all
  finally show ?thesis by (simp add: u_def)
qed

lemma powi_diff_int:
  assumes "a \<le> b"
  shows "(2::real) powi b = of_int (2 ^ nat (b - a)) * 2 powi a"
proof -
  have "(2::real) powi b = 2 powi (b - a) * 2 powi a"
    by (simp add: power_int_add [symmetric])
  also have "(2::real) powi (b - a) = 2 ^ nat (b - a)"
    using assms by (simp add: power_int_nonneg_exp)
  finally show ?thesis by simp
qed

lemma rnd_multiple:
  assumes "v = of_int m * 2 powi e" and "fexp v \<le> e"
  shows "rnd v = v"
proof -
  have "v = of_int (m * 2 ^ nat (e - fexp v)) * 2 powi fexp v"
    unfolding assms(1) [symmetric] using powi_diff_int [OF assms(2)] assms(1) by simp
  then have "v / 2 powi fexp v = of_int (m * 2 ^ nat (e - fexp v))"
    by (simp add: field_simps)
  then have "rnd v = of_int (m * 2 ^ nat (e - fexp v)) * 2 powi fexp v"
    unfolding rnd_def by (simp only: round_even_of_int)
  with \<open>v = of_int (m * 2 ^ nat (e - fexp v)) * 2 powi fexp v\<close> show ?thesis
    by simp
qed

lemma bexp_less:
  assumes "v \<noteq> 0" and "\<bar>v\<bar> < 2 powi k"
  shows "bexp v < k"
proof (rule ccontr)
  assume "\<not> bexp v < k"
  then have "k \<le> bexp v" by simp
  then have "(2::real) powi k \<le> 2 powi bexp v"
    by (intro power_int_increasing) simp_all
  with bexp_bounds(1) [OF assms(1)] assms(2) show False by linarith
qed

lemma bexp_ge:
  assumes "2 powi k \<le> \<bar>v\<bar>"
  shows "k \<le> bexp v"
proof (rule ccontr)
  assume "\<not> k \<le> bexp v"
  then have "bexp v + 1 \<le> k" by simp
  then have "(2::real) powi (bexp v + 1) \<le> 2 powi k"
    by (intro power_int_increasing) simp_all
  moreover have "v \<noteq> 0"
  proof
    assume "v = 0"
    with assms have "(2::real) powi k \<le> 0" by simp
    with ulp_pos [of k] show False by linarith
  qed
  ultimately show False
    using bexp_bounds(2) [of v] assms by linarith
qed

lemma rnd_exact:
  assumes "v = of_int m * 2 powi e" and "\<bar>m\<bar> < 2 ^ 24" and "- 149 \<le> e"
  shows "rnd v = v"
proof (cases "v = 0")
  case True
  then show ?thesis by simp
next
  case False
  have "\<bar>v\<bar> = of_int \<bar>m\<bar> * 2 powi e"
    by (simp add: assms(1) abs_mult)
  also have "\<dots> < 2 ^ 24 * 2 powi e"
  proof -
    have "real_of_int \<bar>m\<bar> < real_of_int (2 ^ 24)"
      using assms(2) by (simp only: of_int_less_iff)
    then show ?thesis by (intro mult_strict_right_mono) simp_all
  qed
  also have "\<dots> = 2 powi (e + 24)"
    by (simp add: power_int_add)
  finally have "bexp v < e + 24"
    using False by (intro bexp_less)
  then have "fexp v \<le> e"
    using assms(3) by (simp add: fexp_def)
  with assms(1) show ?thesis by (rule rnd_multiple)
qed

lemma rnd_nonneg: "0 \<le> v \<Longrightarrow> 0 \<le> rnd v"
proof -
  assume "0 \<le> v"
  then have "real_of_int 0 \<le> v / 2 powi fexp v" by simp
  then have "0 \<le> round_even (v / 2 powi fexp v)" by (rule round_even_ge)
  then show ?thesis by (simp add: rnd_def)
qed

lemma representable_multiple:
  assumes "rnd f = f"
  shows "\<exists>n. f = of_int n * 2 powi fexp f"
  using assms unfolding rnd_def by metis

lemma rnd_le_pos:
  assumes "0 \<le> v" and "v \<le> f" and "rnd f = f"
  shows "rnd v \<le> f"
proof (cases "v = 0")
  case True
  with assms show ?thesis by simp
next
  case False
  with assms have "\<bar>v\<bar> \<le> \<bar>f\<bar>" by simp
  with False have le: "fexp v \<le> fexp f" by (rule fexp_mono)
  obtain n where n: "f = of_int n * 2 powi fexp f"
    using representable_multiple [OF assms(3)] ..
  define N where "N = n * 2 ^ nat (fexp f - fexp v)"
  have f: "f = of_int N * 2 powi fexp v"
    using n powi_diff_int [OF le] by (simp add: N_def)
  have "v / 2 powi fexp v \<le> of_int N"
    using assms(2) f by (simp add: field_simps)
  then have "round_even (v / 2 powi fexp v) \<le> N"
    by (rule round_even_le)
  then have "real_of_int (round_even (v / 2 powi fexp v)) * 2 powi fexp v \<le> of_int N * 2 powi fexp v"
    by (intro mult_right_mono) simp_all
  then show ?thesis
    by (simp add: rnd_def f [symmetric])
qed

lemma rnd_ge_pos:
  assumes "0 \<le> f" and "f \<le> v" and "rnd f = f"
  shows "f \<le> rnd v"
proof (cases "f = 0")
  case True
  with assms rnd_nonneg [of v] show ?thesis by simp
next
  case False
  with assms have fv: "0 < f" "0 < v" "\<bar>f\<bar> \<le> \<bar>v\<bar>" by simp_all
  with False have le: "fexp f \<le> fexp v" by (intro fexp_mono) simp_all
  show ?thesis
  proof (cases "fexp f = fexp v")
    case True
    obtain n where n: "f = of_int n * 2 powi fexp v"
      using representable_multiple [OF assms(3)] True by auto
    have "of_int n \<le> v / 2 powi fexp v"
      using assms(2) n by (simp add: field_simps)
    then have "n \<le> round_even (v / 2 powi fexp v)"
      by (rule round_even_ge)
    then have "of_int n * 2 powi fexp v \<le> real_of_int (round_even (v / 2 powi fexp v)) * 2 powi fexp v"
      by (intro mult_right_mono) simp_all
    then show ?thesis
      by (simp add: rnd_def n [symmetric])
  next
    case False
    with le have lt: "fexp f < fexp v" by simp
    then have bl: "bexp f < bexp v" and fe: "fexp v = bexp v - 23"
      by (auto simp add: fexp_def max_def split: if_splits)
    have "f < 2 powi (bexp f + 1)"
      using bexp_bounds(2) [of f] fv(1) by simp
    also have "\<dots> \<le> 2 powi bexp v"
      using bl by (intro power_int_increasing) simp_all
    finally have fp: "f < 2 powi bexp v" .
    have p: "(2::real) powi bexp v = of_int (2 ^ 23) * 2 powi fexp v"
      unfolding fe using powi_diff_int [of "bexp v - 23" "bexp v"] by simp
    have "2 powi bexp v \<le> v"
      using bexp_bounds(1) [of v] fv(2) by simp
    then have "of_int (2 ^ 23) \<le> v / 2 powi fexp v"
      unfolding p by (simp add: field_simps)
    then have "2 ^ 23 \<le> round_even (v / 2 powi fexp v)"
      by (rule round_even_ge)
    then have "real_of_int (2 ^ 23) * 2 powi fexp v \<le> real_of_int (round_even (v / 2 powi fexp v)) * 2 powi fexp v"
      by (intro mult_right_mono) (simp_all only: of_int_le_iff, simp)
    then have "2 powi bexp v \<le> rnd v"
      unfolding p rnd_def .
    with fp show ?thesis by linarith
  qed
qed

lemma rnd_le:
  assumes "v \<le> f" and "rnd f = f"
  shows "rnd v \<le> f"
proof (cases "0 \<le> v")
  case True
  with assms show ?thesis by (intro rnd_le_pos)
next
  case False
  then have n: "0 \<le> - v" by simp
  show ?thesis
  proof (cases "0 \<le> f")
    case True
    from rnd_nonneg [OF n] have "rnd v \<le> 0" by (simp add: rnd_minus)
    with True show ?thesis by simp
  next
    case False
    then have "0 \<le> - f" "- f \<le> - v" "rnd (- f) = - f"
      using assms by (simp_all add: rnd_minus)
    then have "- f \<le> rnd (- v)" by (rule rnd_ge_pos)
    then show ?thesis by (simp add: rnd_minus)
  qed
qed

lemma rnd_ge:
  assumes "f \<le> v" and "rnd f = f"
  shows "f \<le> rnd v"
proof -
  have "- v \<le> - f" "rnd (- f) = - f"
    using assms by (simp_all add: rnd_minus)
  then have "rnd (- v) \<le> - f" by (rule rnd_le)
  then show ?thesis by (simp add: rnd_minus)
qed

lemma rnd_pow2:
  assumes "- 149 \<le> k"
  shows "rnd (2 powi k) = 2 powi k"
  using assms rnd_exact [of "2 powi k" 1 k] by simp

lemma rnd_abs_le:
  assumes "\<bar>v\<bar> \<le> f" and "rnd f = f"
  shows "\<bar>rnd v\<bar> \<le> f"
proof -
  have "v \<le> f" "- f \<le> v" using assms(1) by linarith+
  moreover have "rnd (- f) = - f" using assms(2) by (simp add: rnd_minus)
  ultimately have "rnd v \<le> f" "- f \<le> rnd v"
    using assms(2) rnd_le [of v f] rnd_ge [of "- f" v] by simp_all
  then show ?thesis by linarith
qed

lemma to_float_finite:
  assumes "\<bar>v\<bar> \<le> 2 ^ k" and "k \<le> 127"
  shows "to_float v = Fin (rnd v)" and "\<bar>rnd v\<bar> \<le> 2 ^ k"
proof -
  have "rnd (2 powi int k) = 2 powi int k"
    by (rule rnd_pow2) simp
  then have r: "rnd (2 ^ k) = (2::real) ^ k" by simp
  show b: "\<bar>rnd v\<bar> \<le> 2 ^ k"
    using assms(1) r by (rule rnd_abs_le)
  have "(2::real) ^ k \<le> 2 ^ 127"
    using assms(2) by (intro power_increasing) simp_all
  also have "\<dots> < 2 ^ 128" by simp
  finally have "\<bar>rnd v\<bar> < 2 ^ 128" using b by linarith
  then show "to_float v = Fin (rnd v)"
    by (simp add: to_float_def Let_def abs_less_iff not_le)
qed

lemma is_floatI:
  assumes "v = of_int m * 2 powi e" and "\<bar>m\<bar> < 2 ^ 24" and "- 149 \<le> e" and "e \<le> 104"
  shows "is_float v"
proof -
  have r: "rnd v = v" using assms(1-3) by (rule rnd_exact)
  have "\<bar>v\<bar> = of_int \<bar>m\<bar> * 2 powi e"
    by (simp add: assms(1) abs_mult)
  also have "\<dots> < 2 ^ 24 * 2 powi e"
  proof -
    have "real_of_int \<bar>m\<bar> < real_of_int (2 ^ 24)"
      using assms(2) by (simp only: of_int_less_iff)
    then show ?thesis by (intro mult_strict_right_mono) simp_all
  qed
  also have "\<dots> \<le> 2 ^ 24 * 2 powi 104"
    using assms(4) by (intro mult_left_mono power_int_increasing) simp_all
  also have "\<dots> = 2 ^ 128"
    by simp
  finally have "\<bar>v\<bar> < 2 ^ 128" .
  then show ?thesis
    by (simp add: is_float_def to_float_def r Let_def abs_less_iff not_le)
qed

lemma is_float_int:
  assumes "\<bar>m\<bar> < 2 ^ 24"
  shows "is_float (of_int m)"
  using is_floatI [of "of_int m" m 0] assms by simp

lemma is_float_0 [simp]: "is_float 0"
  using is_float_int [of 0] by simp

lemma to_float_0 [simp]: "to_float 0 = Fin 0"
  using is_float_0 by (simp add: is_float_def)

lemma rnd_eval:
  assumes "2 powi k \<le> \<bar>v\<bar>" and "\<bar>v\<bar> < 2 powi (k + 1)"
  shows "rnd v = of_int (round_even (v / 2 powi (max (k - 23) (- 149)))) * 2 powi (max (k - 23) (- 149))"
  using bexp_eqI [OF assms] by (simp add: rnd_def fexp_def)

lemma is_float_dyadic:
  assumes "\<bar>m\<bar> < 2 ^ 24" and "k \<le> 149"
  shows "is_float (of_int m / 2 ^ k)"
proof -
  have "real_of_int m / 2 ^ k = of_int m * 2 powi (- int k)"
    by (simp add: power_int_minus field_simps)
  then show ?thesis
    using assms by (intro is_floatI [of _ m "- int k"]) simp_all
qed

lemma is_float_times_pow2:
  assumes "\<bar>m\<bar> < 2 ^ 24" and "k \<le> 104"
  shows "is_float (of_int m * 2 ^ k)"
  using assms by (intro is_floatI [of _ m "int k"]) simp_all

lemma to_float_is_float: "is_float v \<Longrightarrow> to_float v = Fin v"
  by (simp add: is_float_def)

lemma floats_small:
  "is_float 1" "is_float 2" "is_float 3" "is_float 4" "is_float (- 1)" "is_float (3 / 2)"
  "is_float (9 / 4)" "is_float (1 / 2)" "is_float 10" "is_float 100"
  using is_float_int [of 1] is_float_int [of 2] is_float_int [of 3] is_float_int [of 4]
    is_float_int [of "- 1"] is_float_dyadic [of 3 1] is_float_dyadic [of 9 2]
    is_float_dyadic [of 1 1] is_float_int [of 10] is_float_int [of 100]
  by simp_all

lemma to_float_eval:
  assumes "2 powi k \<le> \<bar>v\<bar>" and "\<bar>v\<bar> < 2 powi (k + 1)" and "- 126 \<le> k" and "k \<le> 126"
    and "round_even (v / 2 powi (k - 23)) = n"
  shows "to_float v = Fin (of_int n * 2 powi (k - 23))"
proof -
  have m: "max (k - 23) (- 149) = k - 23"
    using assms(3) by simp
  have r: "rnd v = of_int n * 2 powi (k - 23)"
    using rnd_eval [OF assms(1,2)] assms(5) unfolding m by simp
  have "(2::real) powi (k + 1) \<le> 2 powi 127"
    using assms(4) by (intro power_int_increasing) simp_all
  with assms(2) have "\<bar>v\<bar> \<le> 2 ^ 127"
    by simp
  then have "to_float v = Fin (rnd v)"
    by (intro to_float_finite(1) [of v 127]) simp_all
  with r show ?thesis by simp
qed

lemma to_float_below_one: "to_float (1 - 1 / 2 ^ 30) = Fin 1"
proof -
  have "round_even ((1 - 1 / 2 ^ 30) / 2 powi (- 1 - 23)) = 2 ^ 24"
    by (simp add: round_even_def Let_def power_int_minus)
  from to_float_eval [of "- 1" "1 - 1 / 2 ^ 30", OF _ _ _ _ this]
  show ?thesis by (simp add: power_int_minus)
qed

lemma to_float_above_one: "to_float (1 + 1 / 2 ^ 30) = Fin 1"
proof -
  have "round_even ((1 + 1 / 2 ^ 30) / 2 powi (0 - 23)) = 2 ^ 23"
    by (simp add: round_even_def Let_def power_int_minus)
  from to_float_eval [of 0 "1 + 1 / 2 ^ 30", OF _ _ _ _ this]
  show ?thesis by (simp add: power_int_minus)
qed

lemma to_float_tenth: "to_float (1 / 10) = Fin (13421773 / 134217728)"
proof -
  have "round_even ((1 / 10) / 2 powi (- 4 - 23)) = 13421773"
    by (simp add: round_even_def Let_def power_int_minus)
  from to_float_eval [of "- 4" "1 / 10", OF _ _ _ _ this]
  show ?thesis by (simp add: power_int_minus)
qed

lemma to_float_inv_tenth: "to_float (1 / (13421773 / 134217728)) = Fin 10"
proof -
  have "round_even ((1 / (13421773 / 134217728)) / 2 powi (3 - 23)) = 10485760"
    by (simp add: round_even_def Let_def power_int_minus)
  from to_float_eval [of 3 "1 / (13421773 / 134217728)", OF _ _ _ _ this]
  show ?thesis by (simp add: power_int_minus)
qed

lemma to_float_overflow: "to_float (2 ^ 128) = PInf"
proof -
  have "rnd (2 powi 128) = 2 powi 128"
    by (rule rnd_pow2) simp
  then show ?thesis
    by (simp add: to_float_def)
qed

lemma round_even_small:
  assumes "\<bar>y\<bar> < 1 / 2"
  shows "round_even y = 0"
proof -
  have "\<bar>real_of_int (round_even y)\<bar> < 1"
    using round_even_error [of y] assms by linarith
  then show ?thesis by linarith
qed

lemma rnd_idem: "rnd (rnd v) = rnd v"
proof (cases "v = 0")
  case True
  then show ?thesis by simp
next
  case False
  define u :: real where "u = 2 powi fexp v"
  define m where "m = round_even (v / u)"
  define k where "k = bexp v + 1"
  have u: "0 < u" by (simp add: u_def)
  have w: "rnd v = of_int m * 2 powi fexp v"
    by (simp add: rnd_def m_def u_def)
  have vk: "\<bar>v\<bar> < 2 powi k"
    using bexp_bounds(2) [OF False] by (simp add: k_def)
  show ?thesis
  proof (cases "fexp v \<le> k")
    case True
    define N :: int where "N = 2 ^ nat (k - fexp v)"
    have p: "(2::real) powi k = of_int N * u"
      unfolding N_def u_def by (rule powi_diff_int [OF True])
    have "\<bar>v\<bar> / u < of_int N"
      using vk u unfolding p by (simp add: field_simps)
    then have yb: "v / u \<le> of_int N" "of_int (- N) \<le> v / u"
      using u by (simp_all add: abs_less_iff field_simps)
    have mb: "m \<le> N" "- N \<le> m"
      unfolding m_def using yb by (simp_all only: round_even_le round_even_ge)
    have fk: "- 149 \<le> k"
      using True by (simp add: fexp_def)
    consider "m = N" | "m = - N" | "\<bar>m\<bar> < N"
      using mb by linarith
    then show ?thesis
    proof cases
      case 1
      then have "rnd v = 2 powi k"
        unfolding w p u_def by simp
      with rnd_pow2 [OF fk] show ?thesis by simp
    next
      case 2
      then have "rnd v = - (2 powi k)"
        unfolding w p u_def by simp
      with rnd_pow2 [OF fk] show ?thesis by (simp add: rnd_minus)
    next
      case 3
      show ?thesis
      proof (cases "rnd v = 0")
        case True
        then show ?thesis by simp
      next
        case nz: False
        have "\<bar>rnd v\<bar> = of_int \<bar>m\<bar> * u"
          unfolding w u_def by (simp add: abs_mult)
        also have "\<dots> < of_int N * u"
        proof -
          have "real_of_int \<bar>m\<bar> < real_of_int N"
            using 3 by (simp only: of_int_less_iff)
          then show ?thesis using u by (intro mult_strict_right_mono)
        qed
        finally have "\<bar>rnd v\<bar> < 2 powi k"
          unfolding p .
        with nz have "bexp (rnd v) < k" by (rule bexp_less)
        then have "fexp (rnd v) \<le> fexp v"
          by (simp add: fexp_def k_def)
        with w show ?thesis by (rule rnd_multiple)
      qed
    qed
  next
    case False
    then have "k - fexp v \<le> - 1" by simp
    then have "(2::real) powi (k - fexp v) \<le> 2 powi (- 1)"
      by (intro power_int_increasing) simp_all
    then have a: "(2::real) powi (k - fexp v) \<le> 1 / 2"
      by (simp add: power_int_minus)
    have b: "\<bar>v\<bar> / u < 2 powi (k - fexp v)"
      using vk u unfolding u_def by (simp add: power_int_diff field_simps)
    from b a have "\<bar>v\<bar> / u < 1 / 2"
      by (rule less_le_trans)
    then have "\<bar>v / u\<bar> < 1 / 2"
      using u by (simp add: abs_divide)
    then have "m = 0"
      unfolding m_def by (rule round_even_small)
    with w show ?thesis by simp
  qed
qed

lemma to_float_rnd:
  assumes "to_float v = Fin p"
  shows "to_float p = Fin p"
proof -
  from assms have p: "p = rnd v" and b: "\<not> 2 ^ 128 \<le> rnd v" "\<not> rnd v \<le> - (2 ^ 128)"
    by (auto simp add: to_float_def Let_def split: if_splits)
  show ?thesis
    using b unfolding p by (simp add: to_float_def Let_def rnd_idem)
qed

subsection \<open>The pair block in terms of the named quantities\<close>

lemma pair_read_eq:
  "pair_read e i j st =
     (if collides st i j
      then Some (fsub (to_float (vel st i X)) (fst (impulse_term e (normal st i j) st i j)),
                 fsub (to_float (vel st i Y)) (snd (impulse_term e (normal st i j) st i j)),
                 fadd (to_float (vel st j X)) (fst (impulse_term e (normal st i j) st i j)),
                 fadd (to_float (vel st j Y)) (snd (impulse_term e (normal st i j) st i j)))
      else None)"
proof (cases "feq (fsqrt (dist2 st i j)) (Fin 0)")
  case True
  then have deg: "feq (fsqrt (fadd (fmul (fsub (to_float (pos st j X)) (to_float (pos st i X)))
                (fsub (to_float (pos st j X)) (to_float (pos st i X))))
          (fmul (fsub (to_float (pos st j Y)) (to_float (pos st i Y)))
                (fsub (to_float (pos st j Y)) (to_float (pos st i Y)))))) (Fin 0) = True"
    unfolding dist2_def by (rule eqTrueI)
  show ?thesis
    unfolding pair_read_def Let_def collides_def impulse_term_def impulse_def
      normal_def separation_def dist2_def radiusSum_def static_cast_float_def
    by (simp only: deg if_True prod.case fst_conv snd_conv)
next
  case False
  then have deg: "feq (fsqrt (fadd (fmul (fsub (to_float (pos st j X)) (to_float (pos st i X)))
                (fsub (to_float (pos st j X)) (to_float (pos st i X))))
          (fmul (fsub (to_float (pos st j Y)) (to_float (pos st i Y)))
                (fsub (to_float (pos st j Y)) (to_float (pos st i Y)))))) (Fin 0) = False"
    unfolding dist2_def by (rule eq_False [THEN iffD2])
  show ?thesis
    unfolding pair_read_def Let_def collides_def impulse_term_def impulse_def
      normal_def separation_def dist2_def radiusSum_def static_cast_float_def
    by (simp only: deg if_False prod.case fst_conv snd_conv)
qed

lemma pair_write_eq:
  "pair_write i j (fsub (to_float (vel st i X)) (fst c), fsub (to_float (vel st i Y)) (snd c),
                   fadd (to_float (vel st j X)) (fst c), fadd (to_float (vel st j Y)) (snd c)) st
     = apply_impulse i j c st"
  by (simp only: pair_write_def apply_impulse_def Let_def prod.case)

lemma collide_eq:
  "collide e i j st =
     (if collides st i j then apply_impulse i j (impulse_term e (normal st i j) st i j) st else st)"
proof (cases "collides st i j")
  case True
  then show ?thesis
    by (simp only: collide_def pair_read_eq if_True option.case pair_write_eq)
next
  case False
  then show ?thesis
    by (simp only: collide_def pair_read_eq if_False option.case)
qed

subsection \<open>Work partition\<close>

lemma spawn_fold:
  "fold (spawn_thread q r) [0..<k] (0, []) =
     (chunk_start q r k, map (\<lambda>t. (chunk_start q r t, chunk_start q r (Suc t))) [0..<k])"
proof (induction k)
  case 0
  show ?case by (simp add: chunk_start_def)
next
  case (Suc k)
  have "chunk_start q r k + (q + (if k < r then 1 else 0)) = chunk_start q r (Suc k)"
    by (simp add: chunk_start_def min_def)
  with Suc show ?case
    by (simp add: spawn_thread_def Let_def)
qed

lemma thread_ranges_eq:
  "thread_ranges T M =
     map (\<lambda>t. (chunk_start (M div T) (M mod T) t, chunk_start (M div T) (M mod T) (Suc t))) [0..<T]"
  by (simp add: thread_ranges_def Let_def spawn_fold)

lemma chunk_start_mono: "t \<le> u \<Longrightarrow> chunk_start q r t \<le> chunk_start q r u"
  unfolding chunk_start_def by (intro add_mono mult_le_mono1 min.mono) simp_all

lemma chunk_start_total: "0 < T \<Longrightarrow> chunk_start (M div T) (M mod T) T = M"
proof -
  assume "0 < T"
  then have "M mod T < T" by simp
  then have "min T (M mod T) = M mod T" by simp
  then show ?thesis by (simp add: chunk_start_def)
qed

lemma chunk_size:
  "chunk_start q r (Suc t) - chunk_start q r t = q + (if t < r then 1 else 0)"
  by (simp add: chunk_start_def min_def)

lemma chunk_union:
  "(\<Union>t<k. {chunk_start q r t..<chunk_start q r (Suc t)}) = {0..<chunk_start q r k}"
proof (induction k)
  case 0
  show ?case by (simp add: chunk_start_def)
next
  case (Suc k)
  have "chunk_start q r k \<le> chunk_start q r (Suc k)"
    by (rule chunk_start_mono) simp
  then have "{0..<chunk_start q r k} \<union> {chunk_start q r k..<chunk_start q r (Suc k)}
      = {0..<chunk_start q r (Suc k)}"
    by auto
  with Suc show ?case
    by (simp add: lessThan_Suc Un_commute)
qed

lemma chunk_disjoint:
  assumes "t < u"
  shows "{chunk_start q r t..<chunk_start q r (Suc t)} \<inter> {chunk_start q r u..<chunk_start q r (Suc u)} = {}"
proof -
  have "chunk_start q r (Suc t) \<le> chunk_start q r u"
    using assms by (intro chunk_start_mono) simp
  then show ?thesis by auto
qed

text \<open>
  Claim C7. For \<open>M\<close> occupied cells and \<open>T \<ge> 1\<close> threads, the loop hands out \<open>T\<close>
  ranges \<open>[start, end)\<close> of cell indices: each has \<open>M div T\<close> cells, or one more for the
  first \<open>M mod T\<close> threads; two different ranges share no index; together they are
  exactly the indices \<open>0, ..., M - 1\<close>.
\<close>

theorem thread_ranges_partition:
  assumes "1 \<le> T"
  shows "length (thread_ranges T M) = T
    \<and> (\<forall>t<T. fst (thread_ranges T M ! t) \<le> snd (thread_ranges T M ! t)
           \<and> snd (thread_ranges T M ! t) - fst (thread_ranges T M ! t)
               = M div T + (if t < M mod T then 1 else 0))
    \<and> (\<forall>t<T. \<forall>u<T. t \<noteq> u \<longrightarrow>
           range_cells (thread_ranges T M ! t) \<inter> range_cells (thread_ranges T M ! u) = {})
    \<and> (\<Union>t<T. range_cells (thread_ranges T M ! t)) = {0..<M}"
proof (intro conjI allI impI)
  show "length (thread_ranges T M) = T"
    by (simp add: thread_ranges_eq)
next
  fix t assume "t < T"
  then show "fst (thread_ranges T M ! t) \<le> snd (thread_ranges T M ! t)"
    by (simp add: thread_ranges_eq chunk_start_mono)
next
  fix t assume "t < T"
  then show "snd (thread_ranges T M ! t) - fst (thread_ranges T M ! t)
               = M div T + (if t < M mod T then 1 else 0)"
    by (simp only: thread_ranges_eq nth_map_upt add_0 minus_nat.diff_0 fst_conv snd_conv chunk_size)
next
  fix t u assume tu: "t < T" "u < T" "t \<noteq> u"
  then consider "t < u" | "u < t" by linarith
  then show "range_cells (thread_ranges T M ! t) \<inter> range_cells (thread_ranges T M ! u) = {}"
  proof cases
    case 1
    from chunk_disjoint [OF this] tu show ?thesis
      by (simp add: thread_ranges_eq range_cells_def)
  next
    case 2
    from chunk_disjoint [OF this] tu show ?thesis
      by (simp add: thread_ranges_eq range_cells_def Int_commute)
  qed
next
  have "(\<Union>t<T. range_cells (thread_ranges T M ! t))
      = (\<Union>t<T. {chunk_start (M div T) (M mod T) t..<chunk_start (M div T) (M mod T) (Suc t)})"
    by (simp add: thread_ranges_eq range_cells_def)
  also have "\<dots> = {0..<chunk_start (M div T) (M mod T) T}"
    by (rule chunk_union)
  also have "\<dots> = {0..<M}"
    using assms by (simp add: chunk_start_total)
  finally show "(\<Union>t<T. range_cells (thread_ranges T M ! t)) = {0..<M}" .
qed

theorem thread_ranges_partition_witness:
  "(1::nat) \<le> 3
   \<and> thread_ranges 3 5 = [(0, 2), (2, 4), (4, 5)]
   \<and> (\<Union>t<3. range_cells (thread_ranges 3 5 ! t)) = {0..<5}"
proof -
  have h: "(1::nat) \<le> 3" by simp
  have "thread_ranges 3 5 = [(0, 2), (2, 4), (4, 5)]"
    by code_simp
  moreover from thread_ranges_partition [OF h, of 5]
  have "(\<Union>t<3. range_cells (thread_ranges 3 5 ! t)) = {0..<5}"
    by (elim conjE)
  ultimately show ?thesis using h by (intro conjI)
qed

subsection \<open>Integrator\<close>

lemma length_daxpy [simp]: "length (cblas_daxpy n a xs ys) = length ys"
  by (simp add: cblas_daxpy_def)

lemma nth_daxpy:
  "k < length ys \<Longrightarrow> cblas_daxpy n a xs ys ! k = (if k < n then a * xs ! k + ys ! k else ys ! k)"
  by (simp add: cblas_daxpy_def)

lemma positions_integrate:
  "positions (integrate dt st) = cblas_daxpy (length (positions st)) dt (velocities st) (positions st)"
  by (simp add: integrate_def Let_def)

lemma velocities_integrate:
  "velocities (integrate dt st) = cblas_daxpy (length (positions st)) dt (accelerations st) (velocities st)"
  by (simp add: integrate_def Let_def)

text \<open>
  Claim C8. In a frame with elapsed time \<open>dt\<close>, every entry of the position buffer is
  advanced by \<open>dt\<close> times the velocity the state had before the frame's velocity update,
  and every velocity entry by \<open>dt\<close> times the acceleration: positions first, velocities
  second.
\<close>

theorem integrate_position_first:
  assumes "length (velocities st) = length (positions st)"
    and "length (accelerations st) = length (positions st)"
    and "k < length (positions st)"
  shows "positions (integrate dt st) ! k = positions st ! k + velocities st ! k * dt
       \<and> velocities (integrate dt st) ! k = velocities st ! k + accelerations st ! k * dt"
  using assms by (simp add: positions_integrate velocities_integrate nth_daxpy)

theorem integrate_position_first_witness:
  "positions (integrate (1 / 2) two_particles) ! 0 = 1 / 2
   \<and> velocities (integrate (1 / 2) two_particles) ! 1 = 500"
  using integrate_position_first [of two_particles 0 "1 / 2"]
    integrate_position_first [of two_particles 1 "1 / 2"]
  by (simp add: two_particles_def)

text \<open>
  Claim C5 says that \<open>dt\<close> is clamped to be non-negative and that a negative \<open>dt\<close> stops
  the frame instead of being integrated. The frame loop has no such test: with
  \<open>dt = -1\<close> the first particle of the sample state moves from \<open>x = 0\<close> back to
  \<open>x = -1\<close>, where a clamped \<open>dt\<close> would leave it in place.
\<close>

theorem negative_dt_counterexample:
  "positions (integrate (- 1) two_particles) = [- 1, 0, 5 / 2, 0]
   \<and> positions (integrate (- 1) two_particles) \<noteq> positions (integrate (max 0 (- 1)) two_particles)
   \<and> integrate (- 1) two_particles \<noteq> two_particles"
  by (simp add: integrate_def two_particles_def cblas_daxpy_def Let_def upt_rec)

text \<open>
  Claim C5, as the program behaves: the integrator uses \<open>dt\<close> as it is. For a negative
  \<open>dt\<close> every position entry whose velocity is not zero moves by \<open>dt\<close> times that
  velocity, which differs from the result for \<open>dt\<close> clamped to zero and from the
  position before the frame.
\<close>

theorem integrate_dt_unchecked:
  assumes "dt < 0"
    and "length (velocities st) = length (positions st)"
    and "k < length (positions st)"
    and "velocities st ! k \<noteq> 0"
  shows "positions (integrate dt st) ! k = positions st ! k + dt * velocities st ! k
       \<and> positions (integrate dt st) ! k \<noteq> positions (integrate (max 0 dt) st) ! k
       \<and> positions (integrate dt st) ! k \<noteq> positions st ! k"
  using assms by (simp add: positions_integrate nth_daxpy)

theorem integrate_dt_unchecked_witness:
  "positions (integrate (- 1) two_particles) ! 0 = - 1
   \<and> positions (integrate (- 1) two_particles) ! 0 \<noteq> positions (integrate (max 0 (- 1)) two_particles) ! 0"
  using integrate_dt_unchecked [of "- 1" two_particles 0]
  by (simp add: two_particles_def)

subsection \<open>What the pair block leaves unchanged\<close>

lemma store_vel_frame:
  "positions (store_vel i d a st) = positions st"
  "accelerations (store_vel i d a st) = accelerations st"
  "radius (store_vel i d a st) = radius st"
  "detected (store_vel i d a st) = detected st"
  "undefined_cast (store_vel i d a st) = undefined_cast st"
  "length (velocities (store_vel i d a st)) = length (velocities st)"
  by (cases a; simp add: store_vel_def set_vel_def)+

lemma apply_impulse_frame:
  "positions (apply_impulse i j c st) = positions st"
  "accelerations (apply_impulse i j c st) = accelerations st"
  "radius (apply_impulse i j c st) = radius st"
  "detected (apply_impulse i j c st) = detected st @ [(i, j)]"
  "undefined_cast (apply_impulse i j c st) = undefined_cast st"
  "length (velocities (apply_impulse i j c st)) = length (velocities st)"
  by (simp_all add: apply_impulse_def store_vel_frame)

lemma collide_frame:
  "positions (collide e i j st) = positions st"
  "accelerations (collide e i j st) = accelerations st"
  "radius (collide e i j st) = radius st"
  "undefined_cast (collide e i j st) = undefined_cast st"
  by (simp_all add: collide_eq apply_impulse_frame)

lemma length_velocities_collide: "length (velocities (collide e i j st)) = length (velocities st)"
  by (simp add: collide_eq apply_impulse_frame)

lemma detected_collide:
  "detected (collide e i j st) = detected st @ (if collides st i j then [(i, j)] else [])"
  by (simp add: collide_eq apply_impulse_frame)

lemma collide_no_hit: "\<not> collides st i j \<Longrightarrow> collide e i j st = st"
  by (simp add: collide_eq)

subsection \<open>The resolver pass as a run over a list of pairs\<close>

lemma collide_pairs_simps [simp]:
  "collide_pairs e [] st = st"
  "collide_pairs e (p # ps) st = collide_pairs e ps (collide e (fst p) (snd p) st)"
  "collide_pairs e (ps @ qs) st = collide_pairs e qs (collide_pairs e ps st)"
  by (simp_all add: collide_pairs_def)

lemma collide_pairs_append_fun:
  "collide_pairs e (ps @ qs) = (\<lambda>s. collide_pairs e qs (collide_pairs e ps s))"
  by (rule ext) simp

lemma collide_pairs_concat:
  "collide_pairs e (concat (map f xs)) = fold (\<lambda>x. collide_pairs e (f x)) xs"
proof
  fix st show "collide_pairs e (concat (map f xs)) st = fold (\<lambda>x. collide_pairs e (f x)) xs st"
    by (induction xs arbitrary: st) simp_all
qed

lemma collide_pairs_map:
  "collide_pairs e (map f xs) = fold (\<lambda>x. collide e (fst (f x)) (snd (f x))) xs"
proof
  fix st show "collide_pairs e (map f xs) st = fold (\<lambda>x. collide e (fst (f x)) (snd (f x))) xs st"
    by (induction xs arbitrary: st) simp_all
qed

lemma fold_if_filter:
  "fold (\<lambda>x s. if P x then f x s else s) xs = fold f (filter P xs)"
proof
  fix st show "fold (\<lambda>x s. if P x then f x s else s) xs st = fold f (filter P xs) st"
    by (induction xs arbitrary: st) simp_all
qed

lemma intra_cell_eq: "intra_cell e c st = collide_pairs e (intra_pairs c) st"
  by (simp add: intra_cell_def intra_pairs_def collide_pairs_concat collide_pairs_map)

lemma neighbor_fold_eq:
  "fold (\<lambda>i. fold (\<lambda>j s'. if i < j then collide e i j s' else s') nb) c st
     = collide_pairs e (neighbor_pairs c nb) st"
  by (simp add: neighbor_pairs_def collide_pairs_concat collide_pairs_map fold_if_filter)

lemma inter_cell_eq: "inter_cell e grid key c st = collide_pairs e (inter_pairs grid key c) st"
  by (simp add: inter_cell_def inter_pairs_def neighbor_fold_eq Let_def split: option.split)

lemma processCells_eq:
  "processCells e grid ks a b st = collide_pairs e (scan_pairs grid ks a b) st"
  by (simp add: processCells_def scan_pairs_def cell_pairs_def collide_pairs_concat Let_def
      intra_cell_eq inter_cell_eq collide_pairs_append_fun)

lemma scan_pairs_empty [simp]: "scan_pairs grid ks a a = []"
  by (simp add: scan_pairs_def)

lemma scan_pairs_split:
  "a \<le> b \<Longrightarrow> b \<le> c \<Longrightarrow> scan_pairs grid ks a c = scan_pairs grid ks a b @ scan_pairs grid ks b c"
proof -
  assume "a \<le> b" "b \<le> c"
  then have "[a..<c] = [a..<b] @ [b..<c]"
    by (metis le_Suc_ex upt_add_eq_append)
  then show ?thesis
    by (simp add: scan_pairs_def)
qed

lemma fold_ranges:
  "fold (\<lambda>r. processCells e grid ks (fst r) (snd r))
     (map (\<lambda>t. (chunk_start q r t, chunk_start q r (Suc t))) [0..<k]) st
   = collide_pairs e (scan_pairs grid ks 0 (chunk_start q r k)) st"
proof (induction k)
  case 0
  show ?case by (simp add: chunk_start_def)
next
  case (Suc k)
  have "chunk_start q r k \<le> chunk_start q r (Suc k)"
    by (rule chunk_start_mono) simp
  then have "scan_pairs grid ks 0 (chunk_start q r (Suc k))
      = scan_pairs grid ks 0 (chunk_start q r k)
        @ scan_pairs grid ks (chunk_start q r k) (chunk_start q r (Suc k))"
    by (intro scan_pairs_split) simp_all
  with Suc show ?case
    by (simp add: processCells_eq)
qed

lemma fold_processCells:
  assumes "1 \<le> T"
  shows "fold (\<lambda>r. processCells e grid ks (fst r) (snd r)) (thread_ranges T (length ks)) st
       = collide_pairs e (scan_pairs grid ks 0 (length ks)) st"
  using assms by (simp add: thread_ranges_eq fold_ranges chunk_start_total)

lemma resolver_pass_eq:
  assumes "1 \<le> T" and "build_grid n st = Some grid"
  shows "resolver_pass e T n ks st = collide_pairs e (scan_pairs grid ks 0 (length ks)) st"
  using assms by (simp add: resolver_pass_def Let_def fold_processCells)

lemma resolver_pass_cases:
  "(\<exists>ps. resolver_pass e T n ks st = collide_pairs e ps st)
   \<or> resolver_pass e T n ks st = st\<lparr>undefined_cast := True\<rparr>"
proof (cases "build_grid n st")
  case None
  then show ?thesis by (simp add: resolver_pass_def)
next
  case (Some grid)
  have "\<exists>ps. resolver_pass e T n ks st = collide_pairs e ps st"
    unfolding resolver_pass_def Some option.case Let_def thread_ranges_eq fold_ranges
    by (rule exI) (rule refl)
  then show ?thesis ..
qed

lemma collide_pairs_frame:
  "positions (collide_pairs e ps st) = positions st
   \<and> accelerations (collide_pairs e ps st) = accelerations st
   \<and> radius (collide_pairs e ps st) = radius st
   \<and> length (velocities (collide_pairs e ps st)) = length (velocities st)"
  by (induction ps arbitrary: st) (simp_all add: collide_frame length_velocities_collide)

text \<open>
  Claim C9. A resolver pass run sequentially, over any list of cell keys and with any
  number of threads, leaves the position buffer, the acceleration buffer and the radii
  as they were. Of the program's data only entries of the velocity buffer change, and
  its length stays the same.
\<close>

theorem resolver_pass_frame:
  "positions (resolver_pass e T n ks st) = positions st
   \<and> accelerations (resolver_pass e T n ks st) = accelerations st
   \<and> radius (resolver_pass e T n ks st) = radius st
   \<and> length (velocities (resolver_pass e T n ks st)) = length (velocities st)"
  using resolver_pass_cases [of e T n ks st]
proof
  assume "\<exists>ps. resolver_pass e T n ks st = collide_pairs e ps st"
  then obtain ps where "resolver_pass e T n ks st = collide_pairs e ps st" ..
  then show ?thesis
    by (simp only: collide_pairs_frame)
next
  assume "resolver_pass e T n ks st = st\<lparr>undefined_cast := True\<rparr>"
  then show ?thesis by simp
qed

theorem resolver_pass_frame_witness:
  "positions (resolver_pass ENTROPY 4 2 [CellKey 0 0] two_particles) = [0, 0, 3 / 2, 0]
   \<and> radius (resolver_pass ENTROPY 4 2 [CellKey 0 0] two_particles) = [1, 1]"
  using resolver_pass_frame [of ENTROPY 4 2 "[CellKey 0 0]" two_particles]
  by (simp add: two_particles_def)

lemma collides_cong:
  "positions st' = positions st \<Longrightarrow> radius st' = radius st \<Longrightarrow> collides st' i j = collides st i j"
  by (simp add: collides_def dist2_def radiusSum_def pos_def)

lemma detected_collide_pairs:
  "detected (collide_pairs e ps st) = detected st @ filter (\<lambda>p. collides st (fst p) (snd p)) ps"
proof (induction ps arbitrary: st)
  case Nil
  show ?case by simp
next
  case (Cons p ps)
  have "collides (collide e (fst p) (snd p) st) i j = collides st i j" for i j
    by (rule collides_cong) (simp_all add: collide_frame)
  then show ?case
    by (simp add: Cons detected_collide)
qed

subsection \<open>Cell keys\<close>

lemma floor_div_cell: "\<lfloor>a / real_of_int CELL_SIZE\<rfloor> = \<lfloor>a\<rfloor> div CELL_SIZE"
  by (rule floor_divide_real_eq_div) (simp add: CELL_SIZE_def)

lemma sdiv_cell_nonneg: "0 \<le> k \<Longrightarrow> k sdiv CELL_SIZE = k div CELL_SIZE"
  by (cases "k = 0") (simp_all add: signed_divide_int_def sgn_if CELL_SIZE_def)

lemma sdiv_cell_neg: "0 \<le> k \<Longrightarrow> (- k) sdiv CELL_SIZE = - (k div CELL_SIZE)"
  by (cases "k = 0") (simp_all add: signed_divide_int_def sgn_if CELL_SIZE_def)

lemma cell_coord_nonneg: "0 \<le> v \<Longrightarrow> cell_coord v = \<lfloor>v / real_of_int CELL_SIZE\<rfloor>"
  by (simp add: cell_coord_def truncation_def floor_div_cell sdiv_cell_nonneg)

lemma cell_coord_neg: "v < 0 \<Longrightarrow> cell_coord v = - \<lfloor>- v / real_of_int CELL_SIZE\<rfloor>"
proof -
  assume v: "v < 0"
  have c: "\<lceil>v\<rceil> = - \<lfloor>- v\<rfloor>"
    by (simp add: ceiling_def)
  have m: "0 \<le> \<lfloor>- v\<rfloor>"
    using v by simp
  have "cell_coord v = (- \<lfloor>- v\<rfloor>) sdiv CELL_SIZE"
    using v by (simp add: cell_coord_def truncation_def c)
  also have "\<dots> = - (\<lfloor>- v\<rfloor> div CELL_SIZE)"
    using m by (rule sdiv_cell_neg)
  also have "\<dots> = - \<lfloor>- v / real_of_int CELL_SIZE\<rfloor>"
    by (simp only: floor_div_cell)
  finally show ?thesis .
qed

lemma static_cast_int_Fin:
  "static_cast_int (Fin v) =
     (if - (2 ^ 31) \<le> truncation v \<and> truncation v < 2 ^ 31 then Some (truncation v) else None)"
  by (simp add: static_cast_int_def Let_def)

lemma truncation_range:
  assumes "\<bar>v\<bar> < 2 ^ 31"
  shows "- (2 ^ 31) \<le> truncation v" and "truncation v < 2 ^ 31"
proof -
  have "- (2 ^ 31) < v" "v < 2 ^ 31" using assms by linarith+
  then have "real_of_int (- (2 ^ 31)) < v" "v < real_of_int (2 ^ 31)" by simp_all
  then show "- (2 ^ 31) \<le> truncation v" and "truncation v < 2 ^ 31"
    unfolding truncation_def by (auto simp add: floor_less_iff le_floor_iff le_ceiling_iff ceiling_less_iff)
qed

lemma computeCellKey_Fin:
  assumes "\<bar>x\<bar> < 2 ^ 31" and "\<bar>y\<bar> < 2 ^ 31"
  shows "computeCellKey (Fin x) (Fin y) = Some (CellKey (cell_coord x) (cell_coord y))"
  using truncation_range [OF assms(1)] truncation_range [OF assms(2)]
  by (simp add: computeCellKey_def static_cast_int_Fin cell_coord_def)

text \<open>
  Claim C4 says that the cell key is \<open>(floor(x / cellSize), floor(y / cellSize))\<close> for
  every position, negative coordinates included. The conversion to \<^verbatim>\<open>int\<close> and the
  integer division both round toward zero: the position \<open>(-5, -5)\<close> gets the key
  \<open>(0, 0)\<close>, while the floor of \<open>-5 / 10\<close> is \<open>-1\<close>.
\<close>

theorem computeCellKey_floor_counterexample:
  "computeCellKey (Fin (- 5)) (Fin (- 5)) = Some (CellKey 0 0)
   \<and> CellKey \<lfloor>- 5 / real_of_int CELL_SIZE\<rfloor> \<lfloor>- 5 / real_of_int CELL_SIZE\<rfloor> = CellKey (- 1) (- 1)
   \<and> computeCellKey (Fin (- 5)) (Fin (- 5))
       \<noteq> Some (CellKey \<lfloor>- 5 / real_of_int CELL_SIZE\<rfloor> \<lfloor>- 5 / real_of_int CELL_SIZE\<rfloor>)"
  by (simp add: computeCellKey_def static_cast_int_Fin truncation_def CELL_SIZE_def
      signed_divide_int_def)

text \<open>
  Claim C4, as the program behaves, for coordinates \<open>x\<close> and \<open>y\<close> of absolute value
  below \<open>2\<^sup>3\<^sup>1\<close>, where the conversion to \<^verbatim>\<open>int\<close> is defined: a component of the key is
  the floor of the coordinate divided by the cell size where the coordinate is not
  negative, and the negated floor of the negated quotient (rounding toward zero) where
  it is negative.
\<close>

theorem computeCellKey_toward_zero:
  assumes "\<bar>x\<bar> < 2 ^ 31" and "\<bar>y\<bar> < 2 ^ 31"
  shows "computeCellKey (Fin x) (Fin y) =
     Some (CellKey (if 0 \<le> x then \<lfloor>x / real_of_int CELL_SIZE\<rfloor> else - \<lfloor>- x / real_of_int CELL_SIZE\<rfloor>)
                   (if 0 \<le> y then \<lfloor>y / real_of_int CELL_SIZE\<rfloor> else - \<lfloor>- y / real_of_int CELL_SIZE\<rfloor>))"
  by (simp add: computeCellKey_Fin [OF assms] cell_coord_nonneg cell_coord_neg)

theorem computeCellKey_toward_zero_witness:
  "\<bar>25::real\<bar> < 2 ^ 31 \<and> \<bar>- 15::real\<bar> < 2 ^ 31
   \<and> computeCellKey (Fin 25) (Fin (- 15)) = Some (CellKey 2 (- 1))"
proof -
  have h: "\<bar>25::real\<bar> < 2 ^ 31" "\<bar>- 15::real\<bar> < 2 ^ 31" by simp_all
  from computeCellKey_toward_zero [OF h] h show ?thesis
    by (simp add: CELL_SIZE_def)
qed

lemma static_cast_int_undefined:
  "static_cast_int PInf = None" "static_cast_int NInf = None" "static_cast_int NaN = None"
  "2 ^ 31 \<le> v \<Longrightarrow> static_cast_int (Fin v) = None"
  by (simp_all add: static_cast_int_def truncation_def Let_def le_floor_iff)

lemma floor_close:
  fixes a b :: real
  assumes "\<bar>a - b\<bar> < 1"
  shows "\<bar>\<lfloor>a\<rfloor> - \<lfloor>b\<rfloor>\<bar> \<le> 1"
  using assms by linarith

lemma cell_coord_close:
  assumes "\<bar>u - v\<bar> < real_of_int CELL_SIZE"
  shows "\<bar>cell_coord u - cell_coord v\<bar> \<le> 1"
proof -
  have c: "real_of_int CELL_SIZE = 10" by (simp add: CELL_SIZE_def)
  consider "0 \<le> u" "0 \<le> v" | "u < 0" "v < 0" | "0 \<le> u" "v < 0" | "u < 0" "0 \<le> v"
    by linarith
  then show ?thesis
  proof cases
    case 1
    have "\<bar>u / 10 - v / 10\<bar> < 1" using assms c by linarith
    then have "\<bar>\<lfloor>u / 10\<rfloor> - \<lfloor>v / 10\<rfloor>\<bar> \<le> 1" by (rule floor_close)
    with 1 show ?thesis by (simp add: cell_coord_nonneg c)
  next
    case 2
    have "\<bar>(- v) / 10 - (- u) / 10\<bar> < 1" using assms c by linarith
    then have "\<bar>\<lfloor>(- v) / 10\<rfloor> - \<lfloor>(- u) / 10\<rfloor>\<bar> \<le> 1" by (rule floor_close)
    with 2 show ?thesis by (simp add: cell_coord_neg c)
  next
    case 3
    then have "0 \<le> u / 10" "u / 10 < 1" "0 \<le> (- v) / 10" "(- v) / 10 < 1"
      using assms c by linarith+
    then have "\<lfloor>u / 10\<rfloor> = 0" "\<lfloor>(- v) / 10\<rfloor> = 0"
      by linarith+
    with 3 show ?thesis by (simp add: cell_coord_nonneg cell_coord_neg c)
  next
    case 4
    then have "0 \<le> v / 10" "v / 10 < 1" "0 \<le> (- u) / 10" "(- u) / 10 < 1"
      using assms c by linarith+
    then have "\<lfloor>v / 10\<rfloor> = 0" "\<lfloor>(- u) / 10\<rfloor> = 0"
      by linarith+
    with 4 show ?thesis by (simp add: cell_coord_nonneg cell_coord_neg c)
  qed
qed

lemma static_cast_int_Some:
  assumes "static_cast_int c = Some t"
  shows "\<exists>v. c = Fin v \<and> \<bar>v\<bar> \<le> 2 ^ 32 \<and> t = truncation v"
proof (cases c)
  case (Fin v)
  with assms have t: "- (2 ^ 31) \<le> truncation v" "truncation v < 2 ^ 31" "t = truncation v"
    by (auto simp add: static_cast_int_Fin split: if_splits)
  have "\<bar>v\<bar> \<le> 2 ^ 32"
  proof (cases "0 \<le> v")
    case True
    with t(2) have "\<lfloor>v\<rfloor> < 2 ^ 31" by (simp add: truncation_def)
    then have "v < real_of_int (2 ^ 31)" by (simp only: floor_less_iff)
    with True show ?thesis by simp
  next
    case False
    with t(1) have "- (2 ^ 31) \<le> \<lceil>v\<rceil>" by (simp add: truncation_def)
    then have "real_of_int (- (2 ^ 31)) - 1 < v" by (simp only: le_ceiling_iff)
    with False show ?thesis by simp
  qed
  with Fin t(3) show ?thesis by simp
qed (use assms in \<open>simp_all add: static_cast_int_def\<close>)

lemma key_of_Some:
  assumes "key_of st i = Some k"
  shows "\<exists>x y. to_float (pos st i X) = Fin x \<and> to_float (pos st i Y) = Fin y
           \<and> \<bar>x\<bar> \<le> 2 ^ 32 \<and> \<bar>y\<bar> \<le> 2 ^ 32 \<and> k = CellKey (cell_coord x) (cell_coord y)"
proof -
  obtain a b where a: "static_cast_int (to_float (pos st i X)) = Some a"
    and b: "static_cast_int (to_float (pos st i Y)) = Some b"
    and k: "k = CellKey (a sdiv CELL_SIZE) (b sdiv CELL_SIZE)"
    using assms unfolding key_of_def computeCellKey_def
    by (auto split: option.splits)
  from static_cast_int_Some [OF a] static_cast_int_Some [OF b] k show ?thesis
    by (auto simp add: cell_coord_def)
qed

subsection \<open>The grid and the pairs the scan visits\<close>

lemma grid_insert_apply:
  "grid_insert st i grid =
     (case key_of st i of
        None \<Rightarrow> None
      | Some key \<Rightarrow> Some (grid(key \<mapsto> (case grid key of None \<Rightarrow> [] | Some c \<Rightarrow> c) @ [i])))"
  by (simp add: grid_insert_def key_of_def static_cast_float_def Let_def)

lemma build_grid_Suc:
  "build_grid (Suc n) st =
     (case build_grid n st of None \<Rightarrow> None | Some grid \<Rightarrow> grid_insert st n grid)"
  by (simp add: build_grid_def)

lemma bucket_Suc:
  "bucket (Suc n) st k = bucket n st k @ (if key_of st n = Some k then [n] else [])"
  by (simp add: bucket_def)

lemma grid_of_Suc:
  assumes "key_of st n = Some key"
  shows "(grid_of n st)(key \<mapsto> (case grid_of n st key of None \<Rightarrow> [] | Some c \<Rightarrow> c) @ [n])
       = grid_of (Suc n) st"
proof
  fix k
  show "((grid_of n st)(key \<mapsto> (case grid_of n st key of None \<Rightarrow> [] | Some c \<Rightarrow> c) @ [n])) k
       = grid_of (Suc n) st k"
    using assms by (auto simp add: grid_of_def bucket_Suc)
qed

lemma build_grid_apply:
  "build_grid n st = (if \<exists>i<n. key_of st i = None then None else Some (grid_of n st))"
proof (induction n)
  case 0
  have "grid_of 0 st = Map.empty"
    by (rule ext) (simp add: grid_of_def bucket_def)
  then show ?case by (simp add: build_grid_def)
next
  case (Suc n)
  show ?case
  proof (cases "\<exists>i<n. key_of st i = None")
    case True
    then have "\<exists>i<Suc n. key_of st i = None"
      using less_Suc_eq by blast
    with True Suc show ?thesis
      by (simp add: build_grid_Suc)
  next
    case False
    with Suc have b: "build_grid n st = Some (grid_of n st)" by simp
    show ?thesis
    proof (cases "key_of st n")
      case None
      then have "\<exists>i<Suc n. key_of st i = None" by blast
      with None b show ?thesis
        by (simp add: build_grid_Suc grid_insert_apply)
    next
      case (Some key)
      with False have "\<not> (\<exists>i<Suc n. key_of st i = None)"
        by (auto simp add: less_Suc_eq)
      with Some b show ?thesis
        by (simp add: build_grid_Suc grid_insert_apply grid_of_Suc)
    qed
  qed
qed

lemma build_grid_SomeD:
  assumes "build_grid n st = Some grid"
  shows "grid = grid_of n st" and "\<And>i. i < n \<Longrightarrow> \<exists>k. key_of st i = Some k"
proof -
  from assms have ok: "\<not> (\<exists>i<n. key_of st i = None)" and g: "grid = grid_of n st"
    by (auto simp add: build_grid_apply split: if_splits)
  show "grid = grid_of n st" by (rule g)
  show "\<exists>k. key_of st i = Some k" if "i < n" for i
    using ok that by (cases "key_of st i") auto
qed

lemma set_bucket: "set (bucket n st k) = {i. i < n \<and> key_of st i = Some k}"
  by (auto simp add: bucket_def)

lemma sorted_bucket: "sorted_wrt (<) (bucket n st k)"
  unfolding bucket_def by (rule sorted_wrt_filter) simp

lemma dom_grid_of: "dom (grid_of n st) = {k. \<exists>i<n. key_of st i = Some k}"
proof -
  have "(bucket n st k \<noteq> []) = (\<exists>i<n. key_of st i = Some k)" for k
    using set_bucket [of n st k] by (auto simp add: set_empty [symmetric] simp del: set_empty)
  then show ?thesis
    by (auto simp add: dom_def grid_of_def)
qed

lemma set_intra_pairs_nth:
  "set (intra_pairs c) = {(c ! a, c ! b) | a b. a < b \<and> b < length c}"
proof -
  have "(p \<in> set (intra_pairs c)) = (\<exists>a b. p = (c ! a, c ! b) \<and> a < b \<and> b < length c)" for p
  proof
    assume "p \<in> set (intra_pairs c)"
    then obtain a b where "a < length c" "Suc a \<le> b" "b < length c" "p = (c ! a, c ! b)"
      by (auto simp add: intra_pairs_def)
    then show "\<exists>a b. p = (c ! a, c ! b) \<and> a < b \<and> b < length c"
      by (intro exI [of _ a] exI [of _ b]) simp
  next
    assume "\<exists>a b. p = (c ! a, c ! b) \<and> a < b \<and> b < length c"
    then obtain a b where ab: "p = (c ! a, c ! b)" "a < b" "b < length c"
      by blast
    then have "a \<in> {0..<length c}" "b \<in> {Suc a..<length c}"
      by simp_all
    with ab(1) show "p \<in> set (intra_pairs c)"
      unfolding intra_pairs_def by (simp del: atLeastLessThan_iff) blast
  qed
  then show ?thesis by blast
qed

lemma set_intra_pairs:
  assumes "sorted_wrt (<) c"
  shows "set (intra_pairs c) = {(i, j). i \<in> set c \<and> j \<in> set c \<and> i < j}"
proof -
  have lt: "c ! a < c ! b" if "a < b" "b < length c" for a b
    using assms that by (simp add: sorted_wrt_iff_nth_less)
  show ?thesis
  proof (rule set_eqI, clarify)
    fix i j
    show "((i, j) \<in> set (intra_pairs c)) = ((i, j) \<in> {(i, j). i \<in> set c \<and> j \<in> set c \<and> i < j})"
    proof
      assume "(i, j) \<in> set (intra_pairs c)"
      then obtain a b where ab: "i = c ! a" "j = c ! b" "a < b" "b < length c"
        by (auto simp add: set_intra_pairs_nth)
      then show "(i, j) \<in> {(i, j). i \<in> set c \<and> j \<in> set c \<and> i < j}"
        using lt [of a b] by simp
    next
      assume "(i, j) \<in> {(i, j). i \<in> set c \<and> j \<in> set c \<and> i < j}"
      then have ij: "i \<in> set c" "j \<in> set c" "i < j" by simp_all
      then obtain a b where ab: "a < length c" "c ! a = i" "b < length c" "c ! b = j"
        by (auto simp add: in_set_conv_nth)
      have "a < b"
      proof (rule ccontr)
        assume "\<not> a < b"
        then consider "a = b" | "b < a" by linarith
        then show False
        proof cases
          case 1
          with ab ij(3) show False by simp
        next
          case 2
          from lt [OF 2 ab(1)] ab ij(3) show False by simp
        qed
      qed
      with ab show "(i, j) \<in> set (intra_pairs c)"
        by (auto simp add: set_intra_pairs_nth)
    qed
  qed
qed

lemma set_neighbor_pairs:
  "set (neighbor_pairs c nb) = {(i, j). i \<in> set c \<and> j \<in> set nb \<and> i < j}"
  by (auto simp add: neighbor_pairs_def)

lemma in_offsets: "(d \<in> set offsets) = (\<bar>d\<bar> \<le> 1)"
  by (auto simp add: offsets_def)

lemma inter_pairs_offsets:
  "inter_pairs grid key c =
     concat (map (\<lambda>dx. concat (map (\<lambda>dy.
         if dx = 0 \<and> dy = 0 then []
         else (case grid (CellKey (cx key + dx) (cy key + dy)) of
                 None \<Rightarrow> []
               | Some nb \<Rightarrow> neighbor_pairs c nb))
       offsets)) offsets)"
  by (simp only: inter_pairs_def offsets_def)

lemma in_inter_pairs:
  "((i, j) \<in> set (inter_pairs grid key c)) =
     (\<exists>dx \<in> set offsets. \<exists>dy \<in> set offsets. \<not> (dx = 0 \<and> dy = 0) \<and> i \<in> set c \<and> i < j \<and>
        (\<exists>nb. grid (CellKey (cx key + dx) (cy key + dy)) = Some nb \<and> j \<in> set nb))"
proof -
  have one: "((i, j) \<in> set (if dx = 0 \<and> dy = 0 then []
         else (case grid (CellKey (cx key + dx) (cy key + dy)) of
                 None \<Rightarrow> []
               | Some nb \<Rightarrow> neighbor_pairs c nb))) =
      (\<not> (dx = 0 \<and> dy = 0) \<and> i \<in> set c \<and> i < j \<and>
        (\<exists>nb. grid (CellKey (cx key + dx) (cy key + dy)) = Some nb \<and> j \<in> set nb))" for dx dy
  proof (cases "grid (CellKey (cx key + dx) (cy key + dy))")
    case None
    then show ?thesis by simp
  next
    case (Some nb)
    then show ?thesis by (auto simp add: set_neighbor_pairs)
  qed
  show ?thesis
    unfolding inter_pairs_offsets set_concat set_map UN_iff bex_simps image_iff one ..
qed

lemma adjacent_iff:
  "adjacent k k' =
     (\<exists>dx \<in> set offsets. \<exists>dy \<in> set offsets. k' = CellKey (cx k + dx) (cy k + dy))"
proof
  assume "adjacent k k'"
  then have "cx k' - cx k \<in> set offsets" "cy k' - cy k \<in> set offsets"
    unfolding adjacent_def in_offsets by simp_all
  moreover have "k' = CellKey (cx k + (cx k' - cx k)) (cy k + (cy k' - cy k))"
    by simp
  ultimately show "\<exists>dx \<in> set offsets. \<exists>dy \<in> set offsets. k' = CellKey (cx k + dx) (cy k + dy)"
    by blast
next
  assume "\<exists>dx \<in> set offsets. \<exists>dy \<in> set offsets. k' = CellKey (cx k + dx) (cy k + dy)"
  then show "adjacent k k'"
    by (auto simp add: adjacent_def in_offsets)
qed

lemma adjacent_cases:
  "adjacent k k' =
     (k' = k \<or> (\<exists>dx \<in> set offsets. \<exists>dy \<in> set offsets. \<not> (dx = 0 \<and> dy = 0) \<and>
        k' = CellKey (cx k + dx) (cy k + dy)))"
proof -
  have z: "(0::int) \<in> set offsets"
    by (simp add: in_offsets)
  have k: "k = CellKey (cx k + 0) (cy k + 0)"
    by simp
  show ?thesis
  proof
    assume "adjacent k k'"
    then obtain dx dy where d: "dx \<in> set offsets" "dy \<in> set offsets"
      "k' = CellKey (cx k + dx) (cy k + dy)"
      unfolding adjacent_iff by blast
    show "k' = k \<or> (\<exists>dx \<in> set offsets. \<exists>dy \<in> set offsets. \<not> (dx = 0 \<and> dy = 0) \<and>
        k' = CellKey (cx k + dx) (cy k + dy))"
    proof (cases "dx = 0 \<and> dy = 0")
      case True
      with d(3) show ?thesis by simp
    next
      case False
      with d show ?thesis by blast
    qed
  next
    assume "k' = k \<or> (\<exists>dx \<in> set offsets. \<exists>dy \<in> set offsets. \<not> (dx = 0 \<and> dy = 0) \<and>
        k' = CellKey (cx k + dx) (cy k + dy))"
    then show "adjacent k k'"
    proof
      assume "k' = k"
      with z k show ?thesis unfolding adjacent_iff by blast
    next
      assume "\<exists>dx \<in> set offsets. \<exists>dy \<in> set offsets. \<not> (dx = 0 \<and> dy = 0) \<and>
        k' = CellKey (cx k + dx) (cy k + dy)"
      then show ?thesis unfolding adjacent_iff by blast
    qed
  qed
qed

lemma grid_of_Some:
  "(\<exists>nb. grid_of n st k = Some nb \<and> j \<in> set nb) = (j < n \<and> key_of st j = Some k)"
proof (cases "bucket n st k = []")
  case True
  then have "grid_of n st k = None"
    by (simp add: grid_of_def)
  moreover have "\<not> (j < n \<and> key_of st j = Some k)"
    using set_bucket [of n st k] True by auto
  ultimately show ?thesis by simp
next
  case False
  then have "grid_of n st k = Some (bucket n st k)"
    by (simp add: grid_of_def)
  then show ?thesis
    by (simp add: set_bucket)
qed

lemma grid_of_cell:
  "(case grid_of n st key of None \<Rightarrow> [] | Some c \<Rightarrow> c) = bucket n st key"
  by (simp add: grid_of_def)

lemma in_cell_pairs:
  "((i, j) \<in> set (cell_pairs (grid_of n st) key)) =
     (i < j \<and> j < n \<and> key_of st i = Some key \<and> (\<exists>k'. key_of st j = Some k' \<and> adjacent key k'))"
proof -
  have intra: "((i, j) \<in> set (intra_pairs (bucket n st key))) =
      (i < j \<and> j < n \<and> key_of st i = Some key \<and> key_of st j = Some key)"
    by (auto simp add: set_intra_pairs [OF sorted_bucket] set_bucket)
  have inter: "((i, j) \<in> set (inter_pairs (grid_of n st) key (bucket n st key))) =
      (i < j \<and> j < n \<and> key_of st i = Some key \<and>
        (\<exists>dx \<in> set offsets. \<exists>dy \<in> set offsets. \<not> (dx = 0 \<and> dy = 0) \<and>
           key_of st j = Some (CellKey (cx key + dx) (cy key + dy))))"
    unfolding in_inter_pairs grid_of_Some set_bucket mem_Collect_eq
    using less_trans [of i j n] in_offsets [of 0] by auto
  have adj: "(\<exists>k'. key_of st j = Some k' \<and> adjacent key k') =
      (key_of st j = Some key \<or>
        (\<exists>dx \<in> set offsets. \<exists>dy \<in> set offsets. \<not> (dx = 0 \<and> dy = 0) \<and>
           key_of st j = Some (CellKey (cx key + dx) (cy key + dy))))"
    unfolding adjacent_cases by blast
  show ?thesis
    unfolding cell_pairs_def Let_def grid_of_cell set_append Un_iff intra inter adj
    by blast
qed

lemma scan_pairs_all:
  "scan_pairs grid ks 0 (length ks) = concat (map (cell_pairs grid) ks)"
proof -
  have "map (\<lambda>idx. cell_pairs grid (ks ! idx)) [0..<length ks]
      = map (cell_pairs grid) (map (\<lambda>idx. ks ! idx) [0..<length ks])"
    by simp
  then show ?thesis
    by (simp only: scan_pairs_def map_nth)
qed

lemma in_scan_pairs:
  assumes "set ks = dom (grid_of n st)"
  shows "((i, j) \<in> set (scan_pairs (grid_of n st) ks 0 (length ks))) =
     (i < j \<and> j < n \<and> (\<exists>k k'. key_of st i = Some k \<and> key_of st j = Some k' \<and> adjacent k k'))"
proof
  assume "(i, j) \<in> set (scan_pairs (grid_of n st) ks 0 (length ks))"
  then obtain key where "(i, j) \<in> set (cell_pairs (grid_of n st) key)"
    by (auto simp add: scan_pairs_all)
  then show "i < j \<and> j < n \<and> (\<exists>k k'. key_of st i = Some k \<and> key_of st j = Some k' \<and> adjacent k k')"
    by (auto simp add: in_cell_pairs)
next
  assume r: "i < j \<and> j < n \<and> (\<exists>k k'. key_of st i = Some k \<and> key_of st j = Some k' \<and> adjacent k k')"
  then obtain k k' where k: "key_of st i = Some k" "key_of st j = Some k'" "adjacent k k'"
    by blast
  from r have "i < n" by simp
  with k(1) have "k \<in> set ks"
    unfolding assms dom_grid_of by blast
  moreover from r k have "(i, j) \<in> set (cell_pairs (grid_of n st) k)"
    by (simp add: in_cell_pairs)
  ultimately show "(i, j) \<in> set (scan_pairs (grid_of n st) ks 0 (length ks))"
    unfolding scan_pairs_all set_concat set_map by blast
qed

subsection \<open>Colliding pairs lie in neighbouring cells\<close>

lemma is_float_rnd: "is_float v \<Longrightarrow> rnd v = v"
  by (auto simp add: is_float_def to_float_def Let_def split: if_splits)

lemma fsub_Fin: "fsub (Fin a) (Fin b) = to_float (a - b)"
  by (simp add: fsub_def)

lemma rnd_square_ge:
  assumes "c \<le> \<bar>d\<bar>" and "0 \<le> c" and "rnd c = c" and "rnd (c * c) = c * c"
  shows "c * c \<le> rnd (rnd d * rnd d)"
proof -
  have "c \<le> \<bar>rnd d\<bar>"
  proof (cases "0 \<le> d")
    case True
    with assms(1) have "c \<le> d" by simp
    then have "c \<le> rnd d" using assms(3) by (rule rnd_ge)
    then show ?thesis by simp
  next
    case False
    with assms(1) have "d \<le> - c" by simp
    moreover have "rnd (- c) = - c" using assms(3) by (simp add: rnd_minus)
    ultimately have "rnd d \<le> - c" by (rule rnd_le)
    then show ?thesis by simp
  qed
  with assms(2) have "c * c \<le> \<bar>rnd d\<bar> * \<bar>rnd d\<bar>"
    by (intro mult_mono) simp_all
  then have "c * c \<le> rnd d * rnd d"
    by (simp add: abs_mult_self_eq)
  then show ?thesis using assms(4) by (rule rnd_ge)
qed

lemma dist2_finite:
  assumes "to_float (pos st i X) = Fin xi" and "to_float (pos st i Y) = Fin yi"
    and "to_float (pos st j X) = Fin xj" and "to_float (pos st j Y) = Fin yj"
    and "\<bar>xi\<bar> \<le> 2 ^ 32" and "\<bar>yi\<bar> \<le> 2 ^ 32" and "\<bar>xj\<bar> \<le> 2 ^ 32" and "\<bar>yj\<bar> \<le> 2 ^ 32"
  shows "dist2 st i j
       = Fin (rnd (rnd (rnd (xj - xi) * rnd (xj - xi)) + rnd (rnd (yj - yi) * rnd (yj - yi))))"
proof -
  have sq: "fmul (to_float d) (to_float d) = Fin (rnd (rnd d * rnd d))
      \<and> \<bar>rnd (rnd d * rnd d)\<bar> \<le> 2 ^ 66" if "\<bar>d\<bar> \<le> 2 ^ 33" for d :: real
  proof -
    from that have d: "to_float d = Fin (rnd d)" "\<bar>rnd d\<bar> \<le> 2 ^ 33"
      by (rule to_float_finite, simp)+
    have "\<bar>rnd d\<bar> * \<bar>rnd d\<bar> \<le> 2 ^ 33 * 2 ^ 33"
      using d(2) by (intro mult_mono) simp_all
    then have "\<bar>rnd d * rnd d\<bar> \<le> 2 ^ 66"
      by (simp add: abs_mult)
    then have "to_float (rnd d * rnd d) = Fin (rnd (rnd d * rnd d))"
      "\<bar>rnd (rnd d * rnd d)\<bar> \<le> 2 ^ 66"
      by (rule to_float_finite, simp)+
    with d(1) show ?thesis by simp
  qed
  have x: "\<bar>xj - xi\<bar> \<le> 2 ^ 33" using assms(5,7) by simp
  have y: "\<bar>yj - yi\<bar> \<le> 2 ^ 33" using assms(6,8) by simp
  have "\<bar>rnd (rnd (xj - xi) * rnd (xj - xi))\<bar> \<le> 2 ^ 66"
    "\<bar>rnd (rnd (yj - yi) * rnd (yj - yi))\<bar> \<le> 2 ^ 66"
    using sq [OF x] sq [OF y] by blast+
  then have "\<bar>rnd (rnd (xj - xi) * rnd (xj - xi)) + rnd (rnd (yj - yi) * rnd (yj - yi))\<bar>
      \<le> 2 ^ 66 + 2 ^ 66"
    by (rule abs_triangle_ineq [THEN order_trans, OF add_mono])
  then have "\<bar>rnd (rnd (xj - xi) * rnd (xj - xi)) + rnd (rnd (yj - yi) * rnd (yj - yi))\<bar> \<le> 2 ^ 67"
    by simp
  then have "to_float (rnd (rnd (xj - xi) * rnd (xj - xi)) + rnd (rnd (yj - yi) * rnd (yj - yi)))
      = Fin (rnd (rnd (rnd (xj - xi) * rnd (xj - xi)) + rnd (rnd (yj - yi) * rnd (yj - yi))))"
    by (rule to_float_finite) simp
  with sq [OF x] sq [OF y] show ?thesis
    by (simp add: dist2_def assms(1-4) fsub_Fin)
qed

lemma radiusSum_square:
  assumes "0 \<le> radius st ! i + radius st ! j"
    and "radius st ! i + radius st ! j \<le> real_of_int CELL_SIZE"
  shows "\<exists>q. fmul (radiusSum st i j) (radiusSum st i j) = Fin q \<and> q \<le> 100"
proof -
  define s where "s = radius st ! i + radius st ! j"
  have r10: "rnd 10 = 10" and r100: "rnd 100 = 100"
    using floats_small by (simp_all add: is_float_rnd)
  have s: "0 \<le> s" "s \<le> 10"
    using assms by (simp_all add: s_def CELL_SIZE_def)
  then have "\<bar>s\<bar> \<le> 2 ^ 4" by simp
  then have f: "to_float s = Fin (rnd s)"
    by (rule to_float_finite) simp
  have b: "0 \<le> rnd s" "rnd s \<le> 10"
    using s r10 by (simp_all add: rnd_nonneg rnd_le)
  then have "rnd s * rnd s \<le> 10 * 10"
    by (intro mult_mono) simp_all
  then have p: "rnd s * rnd s \<le> 100" by simp
  moreover have "0 \<le> rnd s * rnd s" by simp
  ultimately have "\<bar>rnd s * rnd s\<bar> \<le> 2 ^ 7" by simp
  then have "to_float (rnd s * rnd s) = Fin (rnd (rnd s * rnd s))"
    by (rule to_float_finite) simp
  moreover have "rnd (rnd s * rnd s) \<le> 100"
    using p r100 by (rule rnd_le)
  ultimately show ?thesis
    using f by (simp add: radiusSum_def s_def [symmetric])
qed

lemma collides_adjacent:
  assumes "collides st i j" and "key_of st i = Some k" and "key_of st j = Some k'"
    and "0 \<le> radius st ! i + radius st ! j"
    and "radius st ! i + radius st ! j \<le> real_of_int CELL_SIZE"
  shows "adjacent k k'"
proof -
  obtain xi yi where i: "to_float (pos st i X) = Fin xi" "to_float (pos st i Y) = Fin yi"
      "\<bar>xi\<bar> \<le> 2 ^ 32" "\<bar>yi\<bar> \<le> 2 ^ 32" "k = CellKey (cell_coord xi) (cell_coord yi)"
    using key_of_Some [OF assms(2)] by blast
  obtain xj yj where j: "to_float (pos st j X) = Fin xj" "to_float (pos st j Y) = Fin yj"
      "\<bar>xj\<bar> \<le> 2 ^ 32" "\<bar>yj\<bar> \<le> 2 ^ 32" "k' = CellKey (cell_coord xj) (cell_coord yj)"
    using key_of_Some [OF assms(3)] by blast
  define sx where "sx = rnd (rnd (xj - xi) * rnd (xj - xi))"
  define sy where "sy = rnd (rnd (yj - yi) * rnd (yj - yi))"
  have d: "dist2 st i j = Fin (rnd (sx + sy))"
    unfolding sx_def sy_def by (rule dist2_finite [OF i(1,2) j(1,2) i(3,4) j(3,4)])
  obtain q where q: "fmul (radiusSum st i j) (radiusSum st i j) = Fin q" "q \<le> 100"
    using radiusSum_square [OF assms(4,5)] by blast
  from assms(1) d q have less: "rnd (sx + sy) < 100"
    by (simp add: collides_def)
  have r10: "rnd 10 = 10" and r100: "rnd 100 = 100" and r100': "rnd (10 * 10) = 10 * 10"
    using floats_small by (simp_all add: is_float_rnd)
  have nn: "0 \<le> sx" "0 \<le> sy"
    unfolding sx_def sy_def by (simp_all add: rnd_nonneg)
  have close: "\<bar>d\<bar> < 10" if "rnd (rnd d * rnd d) \<le> sx + sy"
      and "rnd (rnd d * rnd d) = sx \<or> rnd (rnd d * rnd d) = sy" for d
  proof (rule ccontr)
    assume "\<not> \<bar>d\<bar> < 10"
    then have "10 \<le> \<bar>d\<bar>" by simp
    then have "10 * 10 \<le> rnd (rnd d * rnd d)"
      using r10 r100' by (intro rnd_square_ge) simp_all
    with that(1) have "100 \<le> sx + sy" by simp
    then have "100 \<le> rnd (sx + sy)" using r100 by (rule rnd_ge)
    with less show False by simp
  qed
  have "\<bar>xj - xi\<bar> < 10"
    using nn by (intro close) (simp_all add: sx_def)
  then have "\<bar>xj - xi\<bar> < real_of_int CELL_SIZE" by (simp add: CELL_SIZE_def)
  then have x: "\<bar>cell_coord xj - cell_coord xi\<bar> \<le> 1" by (rule cell_coord_close)
  have "\<bar>yj - yi\<bar> < 10"
    using nn by (intro close) (simp_all add: sy_def)
  then have "\<bar>yj - yi\<bar> < real_of_int CELL_SIZE" by (simp add: CELL_SIZE_def)
  then have y: "\<bar>cell_coord yj - cell_coord yi\<bar> \<le> 1" by (rule cell_coord_close)
  from x y show ?thesis
    by (simp add: adjacent_def i(5) j(5))
qed

lemma in_brute_force:
  "((i, j) \<in> set (brute_force n st)) = (i < j \<and> j < n \<and> collides st i j)"
proof -
  have img: "((i, j) \<in> Pair x ` S) = (x = i \<and> j \<in> S)" for x :: nat and S :: "nat set"
    by auto
  have "((i, j) \<in> set (brute_force n st))
      = (\<exists>x. x < n \<and> x = i \<and> Suc x \<le> j \<and> j < n \<and> collides st x j)"
    by (simp add: brute_force_def img Bex_def)
  also have "\<dots> = (i < j \<and> j < n \<and> collides st i j)"
    by (auto intro: less_trans)
  finally show ?thesis .
qed

lemma set_brute_force:
  "set (brute_force n st) = {(i, j). i < j \<and> j < n \<and> collides st i j}"
  using in_brute_force [of _ _ n st] by (intro set_eqI) (simp add: split_paired_all)

subsection \<open>Sample states, evaluated\<close>

lemma upt_small: "[0..<2] = [0, 1]" "[Suc 0..<2] = [1]" "[0..<Suc 0] = [0]"
  by (simp_all add: upt_rec)

lemma sqrt_9_4: "sqrt (9 / 4) = 3 / 2"
  by (rule real_sqrt_unique) (simp_all add: power2_eq_square)

lemma to_float_small:
  "to_float 1 = Fin 1" "to_float 2 = Fin 2" "to_float 3 = Fin 3" "to_float 4 = Fin 4"
  "to_float (- 1) = Fin (- 1)" "to_float (3 / 2) = Fin (3 / 2)" "to_float (9 / 4) = Fin (9 / 4)"
  "to_float (1 / 2) = Fin (1 / 2)" "to_float 10 = Fin 10" "to_float 100 = Fin 100"
  using floats_small by (simp_all only: is_float_def)

lemma to_float_more:
  "to_float (19 / 2) = Fin (19 / 2)" "to_float (41 / 4) = Fin (41 / 4)"
  "to_float (3 / 4) = Fin (3 / 4)" "to_float (9 / 16) = Fin (9 / 16)"
  "to_float (1 / 4) = Fin (1 / 4)" "to_float (- 2) = Fin (- 2)"
  using is_float_dyadic [of 19 1] is_float_dyadic [of 41 2] is_float_dyadic [of 3 2]
    is_float_dyadic [of 9 4] is_float_dyadic [of 1 2] is_float_int [of "- 2"]
  by (simp_all add: is_float_def)

lemma to_float_below_one_num: "to_float (1073741823 / 1073741824) = Fin 1"
  using to_float_below_one by simp

lemma static_cast_int_small:
  "static_cast_int (Fin 0) = Some 0" "static_cast_int (Fin 1) = Some 1"
  "static_cast_int (Fin (3 / 2)) = Some 1" "static_cast_int (Fin (19 / 2)) = Some 9"
  "static_cast_int (Fin (41 / 4)) = Some 10" "static_cast_int (Fin 3) = Some 3"
  "static_cast_int (Fin 4) = Some 4"
  by (simp_all add: static_cast_int_def truncation_def Let_def)

lemma sdiv_small:
  "(0::int) sdiv CELL_SIZE = 0" "(1::int) sdiv CELL_SIZE = 0" "(9::int) sdiv CELL_SIZE = 0"
  "(10::int) sdiv CELL_SIZE = 1" "(3::int) sdiv CELL_SIZE = 0" "(4::int) sdiv CELL_SIZE = 0"
  by (simp_all add: signed_divide_int_def CELL_SIZE_def)

lemma build_grid_two_particles:
  "build_grid 2 two_particles = Some [CellKey 0 0 \<mapsto> [0, 1]]"
  by (simp add: build_grid_def upt_small grid_insert_def computeCellKey_def static_cast_float_def
      pos_def two_particles_def DIMENSION_def X_def Y_def Let_def
      to_float_small static_cast_int_small sdiv_small)

lemma build_grid_grazing_pair:
  "build_grid 2 grazing_pair = Some [CellKey 0 0 \<mapsto> [0, 1]]"
  by (simp add: build_grid_def upt_small grid_insert_def computeCellKey_def static_cast_float_def
      pos_def grazing_pair_def DIMENSION_def X_def Y_def Let_def
      to_float_below_one_num static_cast_int_small sdiv_small)

lemma build_grid_straddling_pair:
  "build_grid 2 straddling_pair = Some [CellKey 0 0 \<mapsto> [0], CellKey 1 0 \<mapsto> [1]]"
  by (simp add: build_grid_def upt_small grid_insert_def computeCellKey_def static_cast_float_def
      pos_def straddling_pair_def DIMENSION_def X_def Y_def Let_def
      to_float_more static_cast_int_small sdiv_small)

lemma scan_two_particles:
  "scan_pairs [CellKey 0 0 \<mapsto> [0, 1]] [CellKey 0 0] 0 (length [CellKey 0 0]) = [(0, 1)]"
  by (simp add: scan_pairs_def cell_pairs_def intra_pairs_def inter_pairs_def upt_small Let_def)

lemma pairs_below_2:
  "{(i, j). i < j \<and> j < (2::nat) \<and> P i j} = (if P 0 1 then {(0, 1)} else {})"
proof -
  have b: "(i < j \<and> j < 2) = (i = 0 \<and> j = 1)" for i j :: nat
    by arith
  have e: "(i < j \<and> j < 2 \<and> P i j) = (i = 0 \<and> j = 1 \<and> P 0 1)" for i j :: nat
  proof (cases "i = 0 \<and> j = 1")
    case True
    then show ?thesis by simp
  next
    case False
    then have "\<not> (i < j \<and> j < 2)"
      by (simp only: b not_False_eq_True)
    with False show ?thesis by blast
  qed
  show ?thesis
    unfolding e by auto
qed

lemma two_particles_facts:
  "collides two_particles 0 1" "normal two_particles 0 1 = (Fin 1, Fin 0)"
  "in_store two_particles 0" "in_store two_particles 1"
  "dist2 two_particles 0 1 = Fin (9 / 4)"
  "fmul (radiusSum two_particles 0 1) (radiusSum two_particles 0 1) = Fin 4"
  by (simp_all add: collides_def dist2_def radiusSum_def normal_def separation_def pos_def
      in_store_def two_particles_def DIMENSION_def X_def Y_def sqrt_9_4 fsub_Fin to_float_small)

lemma grazing_pair_facts:
  "\<not> collides grazing_pair 0 1"
  "centre_distance grazing_pair 0 1 < radius grazing_pair ! 0 + radius grazing_pair ! 1"
  "radius grazing_pair ! 0 + radius grazing_pair ! 1 \<le> real_of_int CELL_SIZE"
  by (simp_all add: collides_def dist2_def radiusSum_def pos_def centre_distance_def
      grazing_pair_def DIMENSION_def X_def Y_def fsub_Fin to_float_small to_float_below_one_num
      CELL_SIZE_def)

lemma straddling_pair_facts:
  "collides straddling_pair 0 1"
  by (simp_all add: collides_def dist2_def radiusSum_def pos_def
      straddling_pair_def DIMENSION_def X_def Y_def fsub_Fin to_float_small to_float_more)

text \<open>
  Claim C1 says that the scan finds the pairs whose centres are closer than the sum of
  their radii. The program tests the distance in binary32, after converting the
  coordinates to float: the centres of \<^const>\<open>grazing_pair\<close> are \<open>1 - 2\<^sup>-\<^sup>3\<^sup>0\<close> apart, which
  is less than the radius sum 1, but the second coordinate becomes the float 1, the
  squared distance 1 is not below the squared radius sum 1, and the scan detects
  nothing, although both particles are in the same cell.
\<close>

theorem real_distance_counterexample:
  "centre_distance grazing_pair 0 1 < radius grazing_pair ! 0 + radius grazing_pair ! 1
   \<and> radius grazing_pair ! 0 + radius grazing_pair ! 1 \<le> real_of_int CELL_SIZE
   \<and> build_grid 2 grazing_pair = Some [CellKey 0 0 \<mapsto> [0, 1]]
   \<and> detected (resolver_pass ENTROPY 4 2 [CellKey 0 0] grazing_pair) = []"
proof -
  have h: "(1::nat) \<le> 4" by simp
  have "detected grazing_pair = []"
    by (simp add: grazing_pair_def)
  then have "detected (resolver_pass ENTROPY 4 2 [CellKey 0 0] grazing_pair) = []"
    by (simp only: resolver_pass_eq [OF h build_grid_grazing_pair] scan_two_particles
        detected_collide_pairs grazing_pair_facts(1) filter.simps fst_conv snd_conv if_False
        append_Nil)
  with grazing_pair_facts(2,3) build_grid_grazing_pair show ?thesis
    by (intro conjI)
qed

text \<open>
  Claim C1, for the test as the program computes it. Let every coordinate have a defined
  conversion to \<^verbatim>\<open>int\<close> (the grid rebuild succeeds), let the radii be non-negative and
  let the cell size be at least the sum of the radii of any two particles. Then the pairs
  for which the collision test succeeds during one resolver pass over all occupied
  cells (pairs within a bucket, and pairs \<open>i < j\<close> across a bucket and its occupied
  neighbours) are exactly the pairs \<open>i < j\<close> of the \<open>n\<close> particles for which the same test,
  in the same float arithmetic, succeeds, which is what a check of all pairs finds. The
  order in which the hash map lists its keys and the number of threads do not matter.
\<close>

theorem grid_scan_matches_all_pairs:
  assumes "1 \<le> T"
    and "build_grid n st = Some grid"
    and "set ks = dom grid"
    and "detected st = []"
    and "\<forall>i<n. 0 \<le> radius st ! i"
    and "\<forall>i<n. \<forall>j<n. i < j \<longrightarrow> radius st ! i + radius st ! j \<le> real_of_int CELL_SIZE"
  shows "set (detected (resolver_pass e T n ks st)) = set (brute_force n st)
       \<and> set (detected (resolver_pass e T n ks st)) = {(i, j). i < j \<and> j < n \<and> collides st i j}"
proof -
  have g: "grid = grid_of n st" and keys: "\<And>i. i < n \<Longrightarrow> \<exists>k. key_of st i = Some k"
    using build_grid_SomeD [OF assms(2)] by blast+
  have ks: "set ks = dom (grid_of n st)"
    using assms(3) g by simp
  have rs: "0 \<le> radius st ! i + radius st ! j" "radius st ! i + radius st ! j \<le> real_of_int CELL_SIZE"
    if "i < j" "j < n" for i j
  proof -
    from that have "i < n" by simp
    with that assms(5,6) show "0 \<le> radius st ! i + radius st ! j"
      "radius st ! i + radius st ! j \<le> real_of_int CELL_SIZE"
      by simp_all
  qed
  have adj: "\<exists>k k'. key_of st i = Some k \<and> key_of st j = Some k' \<and> adjacent k k'"
    if ij: "i < j" "j < n" "collides st i j" for i j
  proof -
    from ij have "i < n" by simp
    then obtain k where k: "key_of st i = Some k" using keys by blast
    obtain k' where k': "key_of st j = Some k'" using keys ij(2) by blast
    have "adjacent k k'"
      using ij(3) k k' rs [OF ij(1,2)] by (rule collides_adjacent)
    with k k' show ?thesis by blast
  qed
  have "set (detected (resolver_pass e T n ks st))
      = {p \<in> set (scan_pairs (grid_of n st) ks 0 (length ks)). collides st (fst p) (snd p)}"
    using assms(2) by (simp add: resolver_pass_eq [OF assms(1)] detected_collide_pairs assms(4) g)
  also have "\<dots> = {(i, j). i < j \<and> j < n
        \<and> (\<exists>k k'. key_of st i = Some k \<and> key_of st j = Some k' \<and> adjacent k k') \<and> collides st i j}"
    using in_scan_pairs [OF ks] by auto
  also have "\<dots> = {(i, j). i < j \<and> j < n \<and> collides st i j}"
    using adj by blast
  finally have "set (detected (resolver_pass e T n ks st))
      = {(i, j). i < j \<and> j < n \<and> collides st i j}" .
  then show ?thesis
    by (simp only: set_brute_force simp_thms)
qed

theorem grid_scan_matches_all_pairs_witness:
  "build_grid 2 straddling_pair = Some [CellKey 0 0 \<mapsto> [0], CellKey 1 0 \<mapsto> [1]]
   \<and> set (detected (resolver_pass ENTROPY 4 2 [CellKey 0 0, CellKey 1 0] straddling_pair)) = {(0, 1)}
   \<and> set (brute_force 2 straddling_pair) = {(0, 1)}"
proof -
  have h1: "(1::nat) \<le> 4" by simp
  have h3: "set [CellKey 0 0, CellKey 1 0] = dom [CellKey 0 0 \<mapsto> [0::nat], CellKey 1 0 \<mapsto> [1]]"
    by auto
  have h4: "detected straddling_pair = []"
    by (simp add: straddling_pair_def)
  have h5: "\<forall>i<2. 0 \<le> radius straddling_pair ! i"
    by (simp add: straddling_pair_def less_2_cases_iff)
  have h6: "\<forall>i<2. \<forall>j<2. i < j \<longrightarrow>
      radius straddling_pair ! i + radius straddling_pair ! j \<le> real_of_int CELL_SIZE"
    by (simp add: straddling_pair_def less_2_cases_iff CELL_SIZE_def)
  from grid_scan_matches_all_pairs [OF h1 build_grid_straddling_pair h3 h4 h5 h6, of ENTROPY]
  have a: "set (detected (resolver_pass ENTROPY 4 2 [CellKey 0 0, CellKey 1 0] straddling_pair))
      = set (brute_force 2 straddling_pair)"
    and b: "set (detected (resolver_pass ENTROPY 4 2 [CellKey 0 0, CellKey 1 0] straddling_pair))
      = {(i, j). i < j \<and> j < 2 \<and> collides straddling_pair i j}"
    by blast+
  from b have c: "set (detected (resolver_pass ENTROPY 4 2 [CellKey 0 0, CellKey 1 0] straddling_pair)) = {(0, 1)}"
    unfolding pairs_below_2 using straddling_pair_facts by simp
  with a have "set (brute_force 2 straddling_pair) = {(0, 1)}" by simp
  with c build_grid_straddling_pair show ?thesis by (intro conjI)
qed

text \<open>
  Claim C3. Two particles of radius 1 at \<open>(0, 0)\<close> and \<open>(1.5, 0)\<close> with velocities
  \<open>(1, 0)\<close> and \<open>(-1, 0)\<close>, damping coefficient 0: both fall into cell \<open>(0, 0)\<close>, the
  squared distance 2.25 is below the squared radius sum 4, and one resolver pass (with
  any number of threads) detects the pair once and leaves the velocities \<open>(-1, 0)\<close> and
  \<open>(1, 0)\<close>. Every number that occurs is a binary32 number, so no operation rounds. The
  pass does not integrate, so \<open>dt\<close> plays no part in it.
\<close>

theorem head_on_scenario:
  assumes "1 \<le> T"
  shows "build_grid 2 two_particles = Some [CellKey 0 0 \<mapsto> [0, 1]]
       \<and> dist2 two_particles 0 1 = Fin (9 / 4)
       \<and> fmul (radiusSum two_particles 0 1) (radiusSum two_particles 0 1) = Fin 4
       \<and> resolver_pass 0 T 2 [CellKey 0 0] two_particles
           = two_particles\<lparr>velocities := [- 1, 0, 1, 0], detected := [(0, 1)]\<rparr>"
proof -
  have "impulse_term 0 (Fin 1, Fin 0) two_particles 0 1 = (Fin 2, Fin 0)"
    by (simp add: impulse_term_def impulse_def vel_def two_particles_def DIMENSION_def X_def Y_def
        fsub_Fin to_float_small)
  then have "apply_impulse 0 1 (impulse_term 0 (Fin 1, Fin 0) two_particles 0 1) two_particles
      = two_particles\<lparr>velocities := [- 1, 0, 1, 0], detected := [(0, 1)]\<rparr>"
    by (simp add: apply_impulse_def store_vel_def set_vel_def vel_def two_particles_def
        DIMENSION_def X_def Y_def fsub_Fin to_float_small)
  then have "collide 0 0 1 two_particles
      = two_particles\<lparr>velocities := [- 1, 0, 1, 0], detected := [(0, 1)]\<rparr>"
    by (simp only: collide_eq two_particles_facts if_True)
  then have "resolver_pass 0 T 2 [CellKey 0 0] two_particles
           = two_particles\<lparr>velocities := [- 1, 0, 1, 0], detected := [(0, 1)]\<rparr>"
    by (simp only: resolver_pass_eq [OF assms build_grid_two_particles] scan_two_particles
        collide_pairs_simps fst_conv snd_conv)
  with build_grid_two_particles two_particles_facts(5,6) show ?thesis
    by (intro conjI)
qed

theorem head_on_scenario_witness:
  "(1::nat) \<le> 4
   \<and> velocities (resolver_pass 0 4 2 [CellKey 0 0] two_particles) = [- 1, 0, 1, 0]
   \<and> detected (resolver_pass 0 4 2 [CellKey 0 0] two_particles) = [(0, 1)]"
proof -
  have h: "(1::nat) \<le> 4" by simp
  from head_on_scenario [OF h] h show ?thesis by simp
qed

subsection \<open>The pair block when every operation is exact\<close>

lemma store_vel_Fin: "store_vel i d (Fin v) st = set_vel i d v st"
  by (simp add: store_vel_def)

lemma apply_impulse_finite:
  assumes "fsub (to_float (vel st i X)) (fst c) = Fin ix"
    and "fsub (to_float (vel st i Y)) (snd c) = Fin iy"
    and "fadd (to_float (vel st j X)) (fst c) = Fin jx"
    and "fadd (to_float (vel st j Y)) (snd c) = Fin jy"
  shows "apply_impulse i j c st = write_back i j ix iy jx jy st"
  unfolding apply_impulse_def write_back_def assms store_vel_Fin ..

lemma vel_write_back:
  assumes "i \<noteq> j" and "in_store st i" and "in_store st j"
  shows "vel (write_back i j ix iy jx jy st) i X = ix"
    and "vel (write_back i j ix iy jx jy st) i Y = iy"
    and "vel (write_back i j ix iy jx jy st) j X = jx"
    and "vel (write_back i j ix iy jx jy st) j Y = jy"
proof -
  have ix: "i * 2 < length (velocities st)" "Suc (i * 2) < length (velocities st)"
    "j * 2 < length (velocities st)" "Suc (j * 2) < length (velocities st)"
    using assms(2,3) by (simp_all add: in_store_def DIMENSION_def Y_def)
  have ne: "i * 2 \<noteq> j * 2" "i * 2 \<noteq> Suc (j * 2)" "Suc (i * 2) \<noteq> j * 2"
    using assms(1) by presburger+
  have v: "velocities (write_back i j ix iy jx jy st) =
      (velocities st)[i * 2 := ix, Suc (i * 2) := iy, j * 2 := jx, Suc (j * 2) := jy]"
    by (simp add: write_back_def set_vel_def DIMENSION_def X_def Y_def)
  show "vel (write_back i j ix iy jx jy st) i X = ix"
    using ix ne assms(1) unfolding vel_def v by (simp add: DIMENSION_def X_def)
  show "vel (write_back i j ix iy jx jy st) i Y = iy"
    using ix ne assms(1) unfolding vel_def v by (simp add: DIMENSION_def Y_def)
  show "vel (write_back i j ix iy jx jy st) j X = jx"
    using ix ne assms(1) unfolding vel_def v by (simp add: DIMENSION_def X_def)
  show "vel (write_back i j ix iy jx jy st) j Y = jy"
    using ix ne assms(1) unfolding vel_def v by (simp add: DIMENSION_def Y_def)
qed

lemma write_back_frame:
  "nonfinite (write_back i j ix iy jx jy st) = nonfinite st"
  "detected (write_back i j ix iy jx jy st) = detected st @ [(i, j)]"
  by (simp_all add: write_back_def set_vel_def)

lemma impulse_exact:
  assumes "exact_impulse k (nx, ny) st i j"
  shows "impulse (Fin nx, Fin ny) st i j = Fin (relVel (nx, ny) st i j)"
proof -
  have f: "to_float (vel st i X) = Fin (vel st i X)" "to_float (vel st i Y) = Fin (vel st i Y)"
    "to_float (vel st j X) = Fin (vel st j X)" "to_float (vel st j Y) = Fin (vel st j Y)"
    "to_float (vel st i X - vel st j X) = Fin (vel st i X - vel st j X)"
    "to_float (vel st i Y - vel st j Y) = Fin (vel st i Y - vel st j Y)"
    "to_float ((vel st i X - vel st j X) * nx) = Fin ((vel st i X - vel st j X) * nx)"
    "to_float ((vel st i Y - vel st j Y) * ny) = Fin ((vel st i Y - vel st j Y) * ny)"
    "to_float ((vel st i X - vel st j X) * nx + (vel st i Y - vel st j Y) * ny)
       = Fin ((vel st i X - vel st j X) * nx + (vel st i Y - vel st j Y) * ny)"
    using assms by (simp_all add: exact_impulse_def is_float_def relVel_def)
  show ?thesis
    unfolding impulse_def relVel_def
    by (simp only: f fsub_Fin fmul.simps fadd.simps fst_conv snd_conv)
qed

lemma impulse_term_exact:
  assumes "exact_impulse k (nx, ny) st i j" and "fsub (Fin 1) (to_float e) = Fin k"
  shows "impulse_term e (Fin nx, Fin ny) st i j
       = (Fin (relVel (nx, ny) st i j * nx * k), Fin (relVel (nx, ny) st i j * ny * k))"
proof -
  have f: "to_float (relVel (nx, ny) st i j * nx) = Fin (relVel (nx, ny) st i j * nx)"
    "to_float (relVel (nx, ny) st i j * ny) = Fin (relVel (nx, ny) st i j * ny)"
    "to_float (relVel (nx, ny) st i j * nx * k) = Fin (relVel (nx, ny) st i j * nx * k)"
    "to_float (relVel (nx, ny) st i j * ny * k) = Fin (relVel (nx, ny) st i j * ny * k)"
    using assms(1) by (simp_all add: exact_impulse_def is_float_def)
  show ?thesis
    unfolding impulse_term_def impulse_exact [OF assms(1)] assms(2)
    by (simp only: f fmul.simps fst_conv snd_conv)
qed

lemma collide_exact:
  assumes "collides st i j" and "normal st i j = (Fin nx, Fin ny)"
    and "fsub (Fin 1) (to_float e) = Fin k" and "exact_impulse k (nx, ny) st i j"
  shows "collide e i j st
       = write_back i j (vel st i X - relVel (nx, ny) st i j * nx * k)
           (vel st i Y - relVel (nx, ny) st i j * ny * k)
           (vel st j X + relVel (nx, ny) st i j * nx * k)
           (vel st j Y + relVel (nx, ny) st i j * ny * k) st"
proof -
  have f: "to_float (vel st i X) = Fin (vel st i X)" "to_float (vel st i Y) = Fin (vel st i Y)"
    "to_float (vel st j X) = Fin (vel st j X)" "to_float (vel st j Y) = Fin (vel st j Y)"
    "to_float (vel st i X - relVel (nx, ny) st i j * nx * k)
       = Fin (vel st i X - relVel (nx, ny) st i j * nx * k)"
    "to_float (vel st i Y - relVel (nx, ny) st i j * ny * k)
       = Fin (vel st i Y - relVel (nx, ny) st i j * ny * k)"
    "to_float (vel st j X + relVel (nx, ny) st i j * nx * k)
       = Fin (vel st j X + relVel (nx, ny) st i j * nx * k)"
    "to_float (vel st j Y + relVel (nx, ny) st i j * ny * k)
       = Fin (vel st j Y + relVel (nx, ny) st i j * ny * k)"
    using assms(4) by (simp_all add: exact_impulse_def is_float_def)
  have "collide e i j st
      = apply_impulse i j (Fin (relVel (nx, ny) st i j * nx * k),
                           Fin (relVel (nx, ny) st i j * ny * k)) st"
    by (simp only: collide_eq assms(1,2) if_True impulse_term_exact [OF assms(4,3)])
  also have "\<dots> = write_back i j (vel st i X - relVel (nx, ny) st i j * nx * k)
           (vel st i Y - relVel (nx, ny) st i j * ny * k)
           (vel st j X + relVel (nx, ny) st i j * nx * k)
           (vel st j Y + relVel (nx, ny) st i j * ny * k) st"
    by (rule apply_impulse_finite) (simp_all only: f fsub_Fin fadd.simps fst_conv snd_conv)
  finally show ?thesis .
qed




lemma to_float_ENTROPY: "to_float ENTROPY = Fin (5368709 / 536870912)"
proof -
  have "round_even ((1 / 100) / 2 powi (- 7 - 23)) = 10737418"
    by (simp add: round_even_def Let_def power_int_minus)
  from to_float_eval [of "- 7" "1 / 100", OF _ _ _ _ this]
  show ?thesis by (simp add: power_int_minus ENTROPY_def)
qed

lemma damping_ENTROPY: "fsub (Fin 1) (to_float ENTROPY) = Fin (4152361 / 4194304)"
proof -
  have "round_even ((1 - 5368709 / 536870912) / 2 powi (- 1 - 23)) = 16609444"
    by (simp add: round_even_def Let_def power_int_minus)
  from to_float_eval [of "- 1" "1 - 5368709 / 536870912", OF _ _ _ _ this]
  have "to_float (1 - 5368709 / 536870912) = Fin (4152361 / 4194304)"
    by (simp add: power_int_minus)
  then show ?thesis
    by (simp only: to_float_ENTROPY fsub_Fin)
qed


lemma two_particles_relVel: "relVel (1, 0) two_particles 0 1 = 2"
  by (simp add: relVel_def vel_def two_particles_def DIMENSION_def X_def Y_def)

lemma two_particles_exact:
  "exact_impulse 1 (1, 0) two_particles 0 1"
  "exact_impulse (4152361 / 4194304) (1, 0) two_particles 0 1"
proof -
  have f: "is_float (4152361 / 2097152)" "is_float (- (2055209 / 2097152))"
    "is_float (2055209 / 2097152)"
    using is_float_dyadic [of 4152361 21] is_float_dyadic [of "- 2055209" 21]
      is_float_dyadic [of 2055209 21]
    by simp_all
  show "exact_impulse 1 (1, 0) two_particles 0 1"
    unfolding exact_impulse_def two_particles_relVel
    using floats_small by (simp add: vel_def two_particles_def DIMENSION_def X_def Y_def)
  show "exact_impulse (4152361 / 4194304) (1, 0) two_particles 0 1"
    unfolding exact_impulse_def two_particles_relVel
    using floats_small f by (simp add: vel_def two_particles_def DIMENSION_def X_def Y_def)
qed



lemma to_float_nudged: "to_float (1073741825 / 1073741824) = Fin 1"
  using to_float_above_one by simp






subsection \<open>The pair block when the stored values are finite\<close>

lemma to_float_Fin_D: "to_float v = Fin p \<Longrightarrow> p = rnd v"
  by (auto simp add: to_float_def Let_def split: if_splits)

lemma fadd_finite_D:
  assumes "fadd x y = Fin a"
  shows "\<exists>p q. x = Fin p \<and> y = Fin q \<and> a = rnd (p + q)"
proof (cases x)
  case (Fin p)
  note x = this
  show ?thesis
  proof (cases y)
    case (Fin q)
    with x assms have "to_float (p + q) = Fin a" by simp
    then have "a = rnd (p + q)" by (rule to_float_Fin_D)
    with x Fin show ?thesis by simp
  qed (use x assms in simp_all)
qed (use assms in \<open>cases y; simp\<close>)+

lemma fneg_finite: "(fneg y = Fin q) = (y = Fin (- q))"
  by (cases y) auto

lemma fsub_finite_D:
  assumes "fsub x y = Fin a"
  shows "\<exists>p q. x = Fin p \<and> y = Fin q \<and> a = rnd (p - q)"
proof -
  from assms have "fadd x (fneg y) = Fin a" by (simp add: fsub_def)
  then obtain p q where "x = Fin p" "fneg y = Fin q" "a = rnd (p + q)"
    using fadd_finite_D by blast
  then show ?thesis
    by (simp add: fneg_finite)
qed

lemma nonfinite_set_vel: "nonfinite (set_vel i d v st) = nonfinite st"
  by (simp add: set_vel_def)

lemma store_vel_finite_D:
  assumes "\<not> nonfinite (store_vel i d a st)"
  shows "\<exists>v. a = Fin v \<and> store_vel i d a st = set_vel i d v st \<and> \<not> nonfinite st"
  using assms by (cases a) (simp_all add: store_vel_def nonfinite_set_vel)

lemma apply_impulse_finite_D:
  assumes "\<not> nonfinite (apply_impulse i j c st)"
  shows "\<exists>ix iy jx jy.
           fsub (to_float (vel st i X)) (fst c) = Fin ix
         \<and> fsub (to_float (vel st i Y)) (snd c) = Fin iy
         \<and> fadd (to_float (vel st j X)) (fst c) = Fin jx
         \<and> fadd (to_float (vel st j Y)) (snd c) = Fin jy
         \<and> apply_impulse i j c st = write_back i j ix iy jx jy st"
proof -
  define s0 where "s0 = st\<lparr>detected := detected st @ [(i, j)]\<rparr>"
  define s1 where "s1 = store_vel i X (fsub (to_float (vel st i X)) (fst c)) s0"
  define s2 where "s2 = store_vel i Y (fsub (to_float (vel st i Y)) (snd c)) s1"
  define s3 where "s3 = store_vel j X (fadd (to_float (vel st j X)) (fst c)) s2"
  have a: "apply_impulse i j c st = store_vel j Y (fadd (to_float (vel st j Y)) (snd c)) s3"
    by (simp add: apply_impulse_def s0_def s1_def s2_def s3_def)
  from assms obtain jy where 4: "fadd (to_float (vel st j Y)) (snd c) = Fin jy"
      "\<not> nonfinite s3"
    unfolding a using store_vel_finite_D by blast
  from 4(2) obtain jx where 3: "fadd (to_float (vel st j X)) (fst c) = Fin jx" "\<not> nonfinite s2"
    unfolding s3_def using store_vel_finite_D by blast
  from 3(2) obtain iy where 2: "fsub (to_float (vel st i Y)) (snd c) = Fin iy" "\<not> nonfinite s1"
    unfolding s2_def using store_vel_finite_D by blast
  from 2(2) obtain ix where 1: "fsub (to_float (vel st i X)) (fst c) = Fin ix"
    unfolding s1_def using store_vel_finite_D by blast
  from apply_impulse_finite [OF 1 2(1) 3(1) 4(1)] 1 2(1) 3(1) 4(1) show ?thesis
    by blast
qed

lemma four_errors:
  fixes x1 x2 x3 x4 e1 e2 e3 e4 :: real
  assumes "\<bar>x1\<bar> \<le> e1 / 2" and "\<bar>x2\<bar> \<le> e2 / 2" and "\<bar>x3\<bar> \<le> e3 / 2" and "\<bar>x4\<bar> \<le> e4 / 2"
  shows "\<bar>x1 + x2 + x3 + x4\<bar> \<le> (e3 + e4 + e1 + e2) / 2"
proof -
  have p: "x1 \<le> e1 / 2" "x2 \<le> e2 / 2" "x3 \<le> e3 / 2" "x4 \<le> e4 / 2"
    and n: "- x1 \<le> e1 / 2" "- x2 \<le> e2 / 2" "- x3 \<le> e3 / 2" "- x4 \<le> e4 / 2"
    using assms by (simp_all only: abs_le_iff)
  have s: "e1 / 2 + e2 / 2 + e3 / 2 + e4 / 2 = (e3 + e4 + e1 + e2) / 2"
    by (simp add: field_simps)
  have "x1 + x2 + x3 + x4 \<le> e1 / 2 + e2 / 2 + e3 / 2 + e4 / 2"
    by (intro add_mono p)
  moreover have "- x1 + - x2 + - x3 + - x4 \<le> e1 / 2 + e2 / 2 + e3 / 2 + e4 / 2"
    by (intro add_mono n)
  moreover have "- x1 + - x2 + - x3 + - x4 = - (x1 + x2 + x3 + x4)"
    by simp
  ultimately have "x1 + x2 + x3 + x4 \<le> (e3 + e4 + e1 + e2) / 2"
    "- (x1 + x2 + x3 + x4) \<le> (e3 + e4 + e1 + e2) / 2"
    unfolding s by simp_all
  then show ?thesis
    by (simp only: abs_le_iff simp_thms)
qed

lemma rounded_sum_error:
  "\<bar>rnd (rnd a - c) + rnd (rnd b + c) - (a + b)\<bar>
     \<le> (2 powi fexp a + 2 powi fexp b + 2 powi fexp (rnd a - c) + 2 powi fexp (rnd b + c)) / 2"
proof -
  have eq: "rnd (rnd a - c) + rnd (rnd b + c) - (a + b)
      = (rnd (rnd a - c) - (rnd a - c)) + (rnd (rnd b + c) - (rnd b + c))
        + (rnd a - a) + (rnd b - b)"
    by simp
  show ?thesis
    unfolding eq
    by (rule four_errors [OF rnd_error [of "rnd a - c"] rnd_error [of "rnd b + c"]
          rnd_error [of a] rnd_error [of b]])
qed

lemma rounded_sum_exact:
  assumes "is_float a" and "is_float b" and "is_float (a - c)" and "is_float (b + c)"
  shows "rnd (rnd a - c) + rnd (rnd b + c) = a + b"
  using assms by (simp add: is_float_rnd)

lemma drifting_pair_facts:
  "collides drifting_pair 0 1" "normal drifting_pair 0 1 = (Fin 1, Fin 0)"
  by (simp_all add: collides_def dist2_def radiusSum_def normal_def separation_def pos_def
      drifting_pair_def DIMENSION_def X_def Y_def sqrt_9_4 fsub_Fin to_float_small)

lemma drifting_pair_collide:
  "collide 0 0 1 drifting_pair
     = drifting_pair\<lparr>velocities := [- 1, 1, 1, 1], detected := [(0, 1)]\<rparr>"
proof -
  have "impulse_term 0 (Fin 1, Fin 0) drifting_pair 0 1 = (Fin 2, Fin 0)"
    by (simp add: impulse_term_def impulse_def vel_def drifting_pair_def DIMENSION_def X_def Y_def
        fsub_Fin to_float_small to_float_nudged)
  then have "apply_impulse 0 1 (impulse_term 0 (Fin 1, Fin 0) drifting_pair 0 1) drifting_pair
      = drifting_pair\<lparr>velocities := [- 1, 1, 1, 1], detected := [(0, 1)]\<rparr>"
    by (simp add: apply_impulse_def store_vel_def set_vel_def vel_def drifting_pair_def
        DIMENSION_def X_def Y_def fsub_Fin to_float_small to_float_nudged)
  then show ?thesis
    by (simp only: collide_eq drifting_pair_facts if_True)
qed

text \<open>
  Claim C10 says that the sum of the two velocities is unchanged by every impulse
  application. The block converts the stored doubles to float and writes floats back:
  for \<^const>\<open>drifting_pair\<close> the impulse along \<open>Y\<close> is zero, yet both \<open>Y\<close> velocities change from
  \<open>1 + 2\<^sup>-\<^sup>3\<^sup>0\<close> to 1, and their sum from \<open>2 + 2\<^sup>-\<^sup>2\<^sup>9\<close> to 2.
\<close>

theorem momentum_rounding_counterexample:
  "collides drifting_pair 0 1
   \<and> collide 0 0 1 drifting_pair
       = drifting_pair\<lparr>velocities := [- 1, 1, 1, 1], detected := [(0, 1)]\<rparr>
   \<and> vel drifting_pair 0 Y + vel drifting_pair 1 Y = 2 + 1 / 2 ^ 29
   \<and> vel (collide 0 0 1 drifting_pair) 0 Y + vel (collide 0 0 1 drifting_pair) 1 Y = 2
   \<and> vel (collide 0 0 1 drifting_pair) 0 Y + vel (collide 0 0 1 drifting_pair) 1 Y
       \<noteq> vel drifting_pair 0 Y + vel drifting_pair 1 Y"
proof -
  have a: "vel drifting_pair 0 Y + vel drifting_pair 1 Y = 2 + 1 / 2 ^ 29"
    by (simp add: vel_def drifting_pair_def DIMENSION_def Y_def)
  have b: "vel (collide 0 0 1 drifting_pair) 0 Y + vel (collide 0 0 1 drifting_pair) 1 Y = 2"
    unfolding drifting_pair_collide by (simp add: vel_def DIMENSION_def Y_def)
  have "vel (collide 0 0 1 drifting_pair) 0 Y + vel (collide 0 0 1 drifting_pair) 1 Y
       \<noteq> vel drifting_pair 0 Y + vel drifting_pair 1 Y"
    unfolding a b by simp
  with a b drifting_pair_facts(1) drifting_pair_collide show ?thesis
    by (intro conjI)
qed

lemma two_particles_finite: "\<not> nonfinite (collide ENTROPY 0 1 two_particles)"
  unfolding collide_exact [OF two_particles_facts(1,2) damping_ENTROPY two_particles_exact(2)]
    write_back_frame
  by (simp add: two_particles_def)

text \<open>
  Claim C10, for one pair block run without interruption whose four results are finite.
  The same pair of floats \<open>(cx, cy)\<close> is subtracted from the velocity of \<open>i\<close> and added to
  the velocity of \<open>j\<close>; what is stored is the rounded difference and the rounded sum, taken
  from the velocities as converted to float. The sum of the two velocities therefore
  changes by at most half a unit in the last place for each of the four roundings, in
  each component, and it is unchanged where the stored velocities and the exact
  difference and sum are binary32 numbers.
\<close>

theorem collide_momentum_rounded:
  assumes "collides st i j" and "i \<noteq> j" and "in_store st i" and "in_store st j"
    and "\<not> nonfinite (collide e i j st)"
  shows "\<exists>cx cy. impulse_term e (normal st i j) st i j = (Fin cx, Fin cy)
       \<and> vel (collide e i j st) i X = rnd (rnd (vel st i X) - cx)
       \<and> vel (collide e i j st) j X = rnd (rnd (vel st j X) + cx)
       \<and> vel (collide e i j st) i Y = rnd (rnd (vel st i Y) - cy)
       \<and> vel (collide e i j st) j Y = rnd (rnd (vel st j Y) + cy)
       \<and> \<bar>vel (collide e i j st) i X + vel (collide e i j st) j X - (vel st i X + vel st j X)\<bar>
           \<le> (2 powi fexp (vel st i X) + 2 powi fexp (vel st j X)
               + 2 powi fexp (rnd (vel st i X) - cx) + 2 powi fexp (rnd (vel st j X) + cx)) / 2
       \<and> \<bar>vel (collide e i j st) i Y + vel (collide e i j st) j Y - (vel st i Y + vel st j Y)\<bar>
           \<le> (2 powi fexp (vel st i Y) + 2 powi fexp (vel st j Y)
               + 2 powi fexp (rnd (vel st i Y) - cy) + 2 powi fexp (rnd (vel st j Y) + cy)) / 2
       \<and> (is_float (vel st i X) \<and> is_float (vel st j X)
            \<and> is_float (vel st i X - cx) \<and> is_float (vel st j X + cx) \<longrightarrow>
          vel (collide e i j st) i X + vel (collide e i j st) j X = vel st i X + vel st j X)
       \<and> (is_float (vel st i Y) \<and> is_float (vel st j Y)
            \<and> is_float (vel st i Y - cy) \<and> is_float (vel st j Y + cy) \<longrightarrow>
          vel (collide e i j st) i Y + vel (collide e i j st) j Y = vel st i Y + vel st j Y)"
proof -
  define c where "c = impulse_term e (normal st i j) st i j"
  have ce: "collide e i j st = apply_impulse i j c st"
    using assms(1) by (simp add: collide_eq c_def)
  with assms(5) have "\<not> nonfinite (apply_impulse i j c st)" by simp
  then obtain ix iy jx jy where w:
      "fsub (to_float (vel st i X)) (fst c) = Fin ix"
      "fsub (to_float (vel st i Y)) (snd c) = Fin iy"
      "fadd (to_float (vel st j X)) (fst c) = Fin jx"
      "fadd (to_float (vel st j Y)) (snd c) = Fin jy"
      "apply_impulse i j c st = write_back i j ix iy jx jy st"
    using apply_impulse_finite_D by blast
  obtain p1 cx where 1: "to_float (vel st i X) = Fin p1" "fst c = Fin cx" "ix = rnd (p1 - cx)"
    using fsub_finite_D [OF w(1)] by blast
  obtain p2 cy where 2: "to_float (vel st i Y) = Fin p2" "snd c = Fin cy" "iy = rnd (p2 - cy)"
    using fsub_finite_D [OF w(2)] by blast
  obtain p3 cx' where 3: "to_float (vel st j X) = Fin p3" "fst c = Fin cx'" "jx = rnd (p3 + cx')"
    using fadd_finite_D [OF w(3)] by blast
  obtain p4 cy' where 4: "to_float (vel st j Y) = Fin p4" "snd c = Fin cy'" "jy = rnd (p4 + cy')"
    using fadd_finite_D [OF w(4)] by blast
  have same: "cx' = cx" "cy' = cy"
    using 1(2) 3(2) 2(2) 4(2) by simp_all
  have p: "p1 = rnd (vel st i X)" "p2 = rnd (vel st i Y)" "p3 = rnd (vel st j X)"
    "p4 = rnd (vel st j Y)"
    using 1(1) 2(1) 3(1) 4(1) by (simp_all only: to_float_Fin_D)
  have c: "impulse_term e (normal st i j) st i j = (Fin cx, Fin cy)"
    using 1(2) 2(2) unfolding c_def by (simp add: prod_eq_iff)
  have v: "vel (collide e i j st) i X = rnd (rnd (vel st i X) - cx)"
    "vel (collide e i j st) j X = rnd (rnd (vel st j X) + cx)"
    "vel (collide e i j st) i Y = rnd (rnd (vel st i Y) - cy)"
    "vel (collide e i j st) j Y = rnd (rnd (vel st j Y) + cy)"
    unfolding ce w(5) vel_write_back [OF assms(2-4)] 1(3) 2(3) 3(3) 4(3) same p
    by (rule refl)+
  show ?thesis
    unfolding v
    using c rounded_sum_error [of "vel st i X" cx "vel st j X"]
      rounded_sum_error [of "vel st i Y" cy "vel st j Y"]
      rounded_sum_exact [of "vel st i X" "vel st j X" cx]
      rounded_sum_exact [of "vel st i Y" "vel st j Y" cy]
    by blast
qed

theorem collide_momentum_rounded_witness:
  "collides two_particles 0 1 \<and> (0::nat) \<noteq> 1
   \<and> in_store two_particles 0 \<and> in_store two_particles 1
   \<and> \<not> nonfinite (collide ENTROPY 0 1 two_particles)
   \<and> impulse_term ENTROPY (normal two_particles 0 1) two_particles 0 1
       = (Fin (4152361 / 2097152), Fin 0)
   \<and> vel (collide ENTROPY 0 1 two_particles) 0 X + vel (collide ENTROPY 0 1 two_particles) 1 X = 0"
proof -
  have n: "(0::nat) \<noteq> 1" by simp
  have t: "impulse_term ENTROPY (normal two_particles 0 1) two_particles 0 1
      = (Fin (4152361 / 2097152), Fin 0)"
    unfolding two_particles_facts(2) impulse_term_exact [OF two_particles_exact(2) damping_ENTROPY]
      two_particles_relVel
    by simp
  have f: "is_float (vel two_particles 0 X)" "is_float (vel two_particles 1 X)"
    "is_float (vel two_particles 0 X - 4152361 / 2097152)"
    "is_float (vel two_particles 1 X + 4152361 / 2097152)"
    using two_particles_exact(2) unfolding exact_impulse_def two_particles_relVel
    by simp_all
  from collide_momentum_rounded [OF two_particles_facts(1) n two_particles_facts(3,4)
      two_particles_finite]
  obtain cx cy where c: "impulse_term ENTROPY (normal two_particles 0 1) two_particles 0 1
        = (Fin cx, Fin cy)"
    and x: "is_float (vel two_particles 0 X) \<and> is_float (vel two_particles 1 X)
            \<and> is_float (vel two_particles 0 X - cx) \<and> is_float (vel two_particles 1 X + cx) \<longrightarrow>
          vel (collide ENTROPY 0 1 two_particles) 0 X + vel (collide ENTROPY 0 1 two_particles) 1 X
            = vel two_particles 0 X + vel two_particles 1 X"
    by blast
  from c t have "cx = 4152361 / 2097152" by simp
  with x f have "vel (collide ENTROPY 0 1 two_particles) 0 X
      + vel (collide ENTROPY 0 1 two_particles) 1 X = vel two_particles 0 X + vel two_particles 1 X"
    by simp
  also have "\<dots> = 0"
    by (simp add: vel_def two_particles_def DIMENSION_def X_def)
  finally show ?thesis
    using two_particles_facts(1,3,4) n two_particles_finite t by (intro conjI)
qed

subsection \<open>Coincident centres\<close>

lemma fmul_bounded:
  assumes "\<bar>a\<bar> \<le> 2 ^ k" and "\<bar>b\<bar> \<le> 2 ^ m" and "k + m \<le> 127"
  shows "fmul (Fin a) (Fin b) = Fin (rnd (a * b))" and "\<bar>rnd (a * b)\<bar> \<le> 2 ^ (k + m)"
proof -
  have "\<bar>a\<bar> * \<bar>b\<bar> \<le> 2 ^ k * 2 ^ m"
    using assms(1,2) by (intro mult_mono) simp_all
  then have b: "\<bar>a * b\<bar> \<le> 2 ^ (k + m)"
    by (simp add: abs_mult power_add)
  from to_float_finite [OF b assms(3)]
  show "fmul (Fin a) (Fin b) = Fin (rnd (a * b))" and "\<bar>rnd (a * b)\<bar> \<le> 2 ^ (k + m)"
    by simp_all
qed

lemma fadd_bounded:
  assumes "\<bar>a\<bar> \<le> 2 ^ k" and "\<bar>b\<bar> \<le> 2 ^ k" and "k < 127"
  shows "fadd (Fin a) (Fin b) = Fin (rnd (a + b))" and "\<bar>rnd (a + b)\<bar> \<le> 2 ^ Suc k"
proof -
  have "\<bar>a + b\<bar> \<le> 2 ^ k + 2 ^ k"
    using assms(1,2) by (rule abs_triangle_ineq [THEN order_trans, OF add_mono])
  then have b: "\<bar>a + b\<bar> \<le> 2 ^ Suc k"
    by simp
  have "Suc k \<le> 127" using assms(3) by simp
  from to_float_finite [OF b this]
  show "fadd (Fin a) (Fin b) = Fin (rnd (a + b))" and "\<bar>rnd (a + b)\<bar> \<le> 2 ^ Suc k"
    by simp_all
qed

lemma fsub_bounded:
  assumes "\<bar>a\<bar> \<le> 2 ^ k" and "\<bar>b\<bar> \<le> 2 ^ k" and "k < 127"
  shows "fsub (Fin a) (Fin b) = Fin (rnd (a - b))" and "\<bar>rnd (a - b)\<bar> \<le> 2 ^ Suc k"
proof -
  have "\<bar>- b\<bar> \<le> 2 ^ k" using assms(2) by simp
  from fadd_bounded [OF assms(1) this assms(3)]
  show "fsub (Fin a) (Fin b) = Fin (rnd (a - b))" and "\<bar>rnd (a - b)\<bar> \<le> 2 ^ Suc k"
    by (simp_all add: fsub_def)
qed

lemma abs_le_power2:
  fixes a :: real
  assumes "\<bar>a\<bar> \<le> 2 ^ k" and "k \<le> m"
  shows "\<bar>a\<bar> \<le> 2 ^ m"
proof -
  have "(2::real) ^ k \<le> 2 ^ m"
    using assms(2) by (intro power_increasing) simp_all
  with assms(1) show ?thesis by linarith
qed

lemma fmul_zero_right: "fmul (Fin a) (Fin 0) = Fin 0"
  by simp

lemma fmul_zero_left: "fmul (Fin 0) (Fin a) = Fin 0"
  by simp

lemma tenth_bounds: "(1::real) / 2 ^ 4 \<le> 13421773 / 134217728" "(13421773::real) / 134217728 \<noteq> 0"
  by simp_all

lemma to_float_hundred:
  "to_float (- 99) = Fin (- 99)" "to_float 100 = Fin 100" "to_float 20 = Fin 20"
  using is_float_int [of "- 99"] is_float_int [of 100] is_float_int [of 20]
  by (simp_all add: is_float_def)

lemma to_float_inv_tenth_num: "to_float (134217728 / 13421773) = Fin 10"
  using to_float_inv_tenth by simp

lemma stacked_pair_facts:
  "collides stacked_pair 0 1" "normal stacked_pair 0 1 = (Fin 10, Fin 0)"
  "in_store stacked_pair 0" "in_store stacked_pair 1"
  "radiusSum stacked_pair 0 1 = Fin 1"
  by (simp_all add: collides_def dist2_def radiusSum_def normal_def separation_def pos_def
      in_store_def stacked_pair_def DIMENSION_def X_def Y_def fsub_Fin to_float_small
      to_float_tenth to_float_inv_tenth_num)

lemma stacked_pair_collide:
  "collide 0 0 1 stacked_pair
     = stacked_pair\<lparr>velocities := [- 99, 2, 100, 0], detected := [(0, 1)]\<rparr>"
proof -
  have "impulse_term 0 (Fin 10, Fin 0) stacked_pair 0 1 = (Fin 100, Fin 0)"
    by (simp add: impulse_term_def impulse_def vel_def stacked_pair_def DIMENSION_def X_def Y_def
        fsub_Fin to_float_small to_float_hundred)
  then have "apply_impulse 0 1 (impulse_term 0 (Fin 10, Fin 0) stacked_pair 0 1) stacked_pair
      = stacked_pair\<lparr>velocities := [- 99, 2, 100, 0], detected := [(0, 1)]\<rparr>"
    by (simp add: apply_impulse_def store_vel_def set_vel_def vel_def stacked_pair_def
        DIMENSION_def X_def Y_def fsub_Fin to_float_small to_float_hundred)
  then show ?thesis
    by (simp only: collide_eq stacked_pair_facts if_True)
qed

lemma to_float_huge:
  "to_float 170141183460469231731687303715884105728 = Fin 170141183460469231731687303715884105728"
  "to_float (- 170141183460469231731687303715884105728)
     = Fin (- 170141183460469231731687303715884105728)"
  "to_float 340282366920938463463374607431768211456 = PInf"
proof -
  have "is_float (of_int 8388608 * 2 ^ 104)" "is_float (of_int (- 8388608) * 2 ^ 104)"
    by (rule is_float_times_pow2; simp)+
  then show "to_float 170141183460469231731687303715884105728
      = Fin 170141183460469231731687303715884105728"
    "to_float (- 170141183460469231731687303715884105728)
      = Fin (- 170141183460469231731687303715884105728)"
    by (simp_all add: is_float_def)
  show "to_float 340282366920938463463374607431768211456 = PInf"
    using to_float_overflow by simp
qed

lemma fast_stacked_pair_facts:
  "collides fast_stacked_pair 0 1" "normal fast_stacked_pair 0 1 = (Fin 10, Fin 0)"
  by (simp_all add: collides_def dist2_def radiusSum_def normal_def separation_def pos_def
      fast_stacked_pair_def DIMENSION_def X_def Y_def fsub_Fin to_float_small
      to_float_tenth to_float_inv_tenth_num)

lemma fast_stacked_pair_term:
  "impulse_term 0 (Fin 10, Fin 0) fast_stacked_pair 0 1 = (PInf, NaN)"
  by (simp add: impulse_term_def impulse_def vel_def fast_stacked_pair_def DIMENSION_def X_def
      Y_def fsub_def to_float_small to_float_huge signed_inf_def)

text \<open>
  Claim C6 says that for coincident centres the resulting velocity components are
  finite. The two particles of \<^const>\<open>fast_stacked_pair\<close> have the same centre and the finite
  velocities \<open>(2\<^sup>1\<^sup>2\<^sup>7, 0)\<close> and \<open>(-2\<^sup>1\<^sup>2\<^sup>7, 0)\<close>: their difference overflows to infinity, the
  impulse term is (infinity, NaN), and the values assigned to the velocity of the first
  particle are minus infinity and NaN.
\<close>

theorem coincident_overflow_counterexample:
  "pos fast_stacked_pair 0 X = pos fast_stacked_pair 1 X
   \<and> pos fast_stacked_pair 0 Y = pos fast_stacked_pair 1 Y
   \<and> collides fast_stacked_pair 0 1
   \<and> \<not> nonfinite fast_stacked_pair
   \<and> impulse_term 0 (normal fast_stacked_pair 0 1) fast_stacked_pair 0 1 = (PInf, NaN)
   \<and> fsub (to_float (vel fast_stacked_pair 0 X)) PInf = NInf
   \<and> fsub (to_float (vel fast_stacked_pair 0 Y)) NaN = NaN
   \<and> nonfinite (collide 0 0 1 fast_stacked_pair)"
proof -
  have p: "pos fast_stacked_pair 0 X = pos fast_stacked_pair 1 X"
    "pos fast_stacked_pair 0 Y = pos fast_stacked_pair 1 Y" "\<not> nonfinite fast_stacked_pair"
    by (simp_all add: pos_def fast_stacked_pair_def DIMENSION_def X_def Y_def)
  have t: "impulse_term 0 (normal fast_stacked_pair 0 1) fast_stacked_pair 0 1 = (PInf, NaN)"
    by (simp only: fast_stacked_pair_facts(2) fast_stacked_pair_term)
  have w: "fsub (to_float (vel fast_stacked_pair 0 X)) PInf = NInf"
    "fsub (to_float (vel fast_stacked_pair 0 Y)) NaN = NaN"
    by (simp_all add: vel_def fast_stacked_pair_def DIMENSION_def X_def Y_def fsub_def
        to_float_huge)
  have "nonfinite (apply_impulse 0 1 (PInf, NaN) fast_stacked_pair)"
    unfolding apply_impulse_def fst_conv snd_conv w
    by (simp add: store_vel_def vel_def fast_stacked_pair_def DIMENSION_def X_def Y_def
        to_float_huge)
  then have "nonfinite (collide 0 0 1 fast_stacked_pair)"
    by (simp only: collide_eq fast_stacked_pair_facts(1) if_True t)
  with p t w fast_stacked_pair_facts(1) show ?thesis
    by (intro conjI)
qed

text \<open>
  Claim C6, for velocities that leave room below the largest float. Take two different
  particles whose centres coincide, with coordinates in the range of float, a radius sum
  of absolute value at most 16, velocity components of absolute value at most \<open>2\<^sup>1\<^sup>0\<^sup>9\<close>,
  and a damping coefficient between 0 and 1. The separation vector is \<open>(radiusSum, 0)\<close>
  and the divisor is the float \<^verbatim>\<open>0.1f\<close>, which is not zero; the normal is
  \<open>(radiusSum / 0.1f, 0)\<close>, a finite vector. If the test succeeds, which it does for a
  radius sum of at least \<open>2\<^sup>-\<^sup>6\<^sup>0\<close>, the four values that the block assigns are finite: the
  new \<open>X\<close> components are at most \<open>2\<^sup>1\<^sup>2\<^sup>7\<close> in absolute value, and the \<open>Y\<close> components are
  the old ones, converted to float. If the test fails, the block changes nothing. In
  both cases no infinity or NaN is stored.
\<close>

theorem coincident_centres_resolved:
  assumes "pos st i X = pos st j X" and "pos st i Y = pos st j Y"
    and "i \<noteq> j" and "in_store st i" and "in_store st j"
    and "\<bar>pos st i X\<bar> \<le> 2 ^ 127" and "\<bar>pos st i Y\<bar> \<le> 2 ^ 127"
    and "\<bar>radius st ! i + radius st ! j\<bar> \<le> 2 ^ 4"
    and "\<bar>vel st i X\<bar> \<le> 2 ^ 109" and "\<bar>vel st i Y\<bar> \<le> 2 ^ 109"
    and "\<bar>vel st j X\<bar> \<le> 2 ^ 109" and "\<bar>vel st j Y\<bar> \<le> 2 ^ 109"
    and "0 \<le> e" and "e \<le> 1"
  shows "separation st i j = (radiusSum st i j, Fin 0, Fin (13421773 / 134217728))
       \<and> normal st i j = (fdiv (radiusSum st i j) (Fin (13421773 / 134217728)), Fin 0)
       \<and> (\<exists>nx. normal st i j = (Fin nx, Fin 0) \<and> \<bar>nx\<bar> \<le> 2 ^ 8)
       \<and> nonfinite (collide e i j st) = nonfinite st
       \<and> (if collides st i j
           then \<exists>ix jx. \<bar>ix\<bar> \<le> 2 ^ 127 \<and> \<bar>jx\<bar> \<le> 2 ^ 127
                  \<and> collide e i j st
                      = write_back i j ix (rnd (vel st i Y)) jx (rnd (vel st j Y)) st
           else collide e i j st = st)
       \<and> (1 / 2 ^ 60 \<le> radius st ! i + radius st ! j \<longrightarrow> collides st i j)"
proof -
  define t :: real where "t = 13421773 / 134217728"
  have t: "to_float (1 / 10) = Fin t" "1 / 2 ^ 4 \<le> t" "t \<noteq> 0" "0 < t"
    using tenth_bounds by (simp_all add: to_float_tenth t_def)
  txt \<open>the centres\<close>
  have px: "to_float (pos st i X) = Fin (rnd (pos st i X))"
    by (rule to_float_finite(1) [OF assms(6)]) simp
  have py: "to_float (pos st i Y) = Fin (rnd (pos st i Y))"
    by (rule to_float_finite(1) [OF assms(7)]) simp
  have d: "dist2 st i j = Fin 0"
    unfolding dist2_def assms(1,2) [symmetric] px py fsub_Fin by simp
  txt \<open>the radii\<close>
  define s where "s = radius st ! i + radius st ! j"
  define R where "R = rnd s"
  have sa: "\<bar>s\<bar> \<le> 2 ^ 4"
    using assms(8) by (simp add: s_def)
  have "to_float s = Fin R"
    unfolding R_def using sa by (rule to_float_finite) simp
  then have rs: "radiusSum st i j = Fin R"
    by (simp add: radiusSum_def s_def)
  have Ra: "\<bar>R\<bar> \<le> 2 ^ 4"
    unfolding R_def using sa by (rule to_float_finite) simp
  have q: "fmul (Fin R) (Fin R) = Fin (rnd (R * R))"
    by (rule fmul_bounded(1) [OF Ra Ra]) simp
  have c: "collides st i j" if lo: "1 / 2 ^ 60 \<le> radius st ! i + radius st ! j"
  proof -
    have f60: "rnd (1 / 2 ^ 60) = 1 / 2 ^ 60" and f120: "rnd (1 / 2 ^ 120) = 1 / 2 ^ 120"
      using is_float_dyadic [of 1 60] is_float_dyadic [of 1 120]
      by (simp_all add: is_float_rnd)
    have "1 / 2 ^ 60 \<le> s" using lo by (simp add: s_def)
    then have Rb: "1 / 2 ^ 60 \<le> R"
      unfolding R_def using f60 by (rule rnd_ge)
    have "1 / 2 ^ 60 * (1 / 2 ^ 60) \<le> R * R"
      using Rb by (intro mult_mono) simp_all
    then have "1 / 2 ^ 120 \<le> R * R" by simp
    then have "1 / 2 ^ 120 \<le> rnd (R * R)"
      using f120 by (rule rnd_ge)
    then have "0 < rnd (R * R)"
      by (rule less_le_trans [rotated]) simp
    then show ?thesis
      unfolding collides_def d rs q by simp
  qed
  have sep: "separation st i j = (radiusSum st i j, Fin 0, Fin t)"
    by (simp add: separation_def d t(1))
  txt \<open>the normal\<close>
  define nx where "nx = rnd (R / t)"
  have "\<bar>R\<bar> / t \<le> 2 ^ 4 / (1 / 2 ^ 4)"
    using Ra t(2) by (intro frac_le) simp_all
  then have "\<bar>R / t\<bar> \<le> 2 ^ 8"
    using t(4) by simp
  then have nxf: "to_float (R / t) = Fin nx" "\<bar>nx\<bar> \<le> 2 ^ 8"
    unfolding nx_def by (rule to_float_finite, simp)+
  have n: "normal st i j = (Fin nx, Fin 0)"
    using t(3) by (simp add: normal_def sep rs nxf(1))
  have n': "normal st i j = (fdiv (radiusSum st i j) (Fin t), Fin 0)"
    using t(3) by (simp add: normal_def sep rs)
  txt \<open>the velocities read at lines 165 to 168\<close>
  define v1x where "v1x = rnd (vel st i X)"
  define v1y where "v1y = rnd (vel st i Y)"
  define v2x where "v2x = rnd (vel st j X)"
  define v2y where "v2y = rnd (vel st j Y)"
  have v: "to_float (vel st i X) = Fin v1x" "to_float (vel st i Y) = Fin v1y"
    "to_float (vel st j X) = Fin v2x" "to_float (vel st j Y) = Fin v2y"
    unfolding v1x_def v1y_def v2x_def v2y_def
    by (rule to_float_finite(1) [OF assms(9)] to_float_finite(1) [OF assms(10)]
          to_float_finite(1) [OF assms(11)] to_float_finite(1) [OF assms(12)], simp)+
  have vb: "\<bar>v1x\<bar> \<le> 2 ^ 109" "\<bar>v1y\<bar> \<le> 2 ^ 109" "\<bar>v2x\<bar> \<le> 2 ^ 109" "\<bar>v2y\<bar> \<le> 2 ^ 109"
    unfolding v1x_def v1y_def v2x_def v2y_def
    by (rule to_float_finite(2) [OF assms(9)] to_float_finite(2) [OF assms(10)]
          to_float_finite(2) [OF assms(11)] to_float_finite(2) [OF assms(12)], simp)+
  have vy: "to_float v1y = Fin v1y" "to_float v2y = Fin v2y"
    by (rule to_float_rnd [OF v(2)], rule to_float_rnd [OF v(4)])
  txt \<open>the relative velocity of line 170\<close>
  define d1 where "d1 = rnd (v1x - v2x)"
  define d2 where "d2 = rnd (v1y - v2y)"
  have d1: "fsub (Fin v1x) (Fin v2x) = Fin d1" "\<bar>d1\<bar> \<le> 2 ^ Suc 109"
    unfolding d1_def by (rule fsub_bounded [OF vb(1,3)], simp)+
  have d2: "fsub (Fin v1y) (Fin v2y) = Fin d2"
    unfolding d2_def by (rule fsub_bounded [OF vb(2,4)]) simp
  define m1 where "m1 = rnd (d1 * nx)"
  have m1: "fmul (Fin d1) (Fin nx) = Fin m1" "\<bar>m1\<bar> \<le> 2 ^ (Suc 109 + 8)"
    unfolding m1_def by (rule fmul_bounded [OF d1(2) nxf(2)], simp)+
  define r where "r = rnd m1"
  have "\<bar>m1\<bar> \<le> 2 ^ 118" using m1(2) by simp
  then have r: "to_float m1 = Fin r" "\<bar>r\<bar> \<le> 2 ^ 118"
    unfolding r_def by (rule to_float_finite, simp)+
  have imp: "impulse (Fin nx, Fin 0) st i j = Fin r"
    unfolding impulse_def v fst_conv snd_conv d1(1) d2 m1(1) fmul_zero_right
    by (simp add: r(1))
  txt \<open>the factor \<open>1 - ENTROPY\<close>\<close>
  have f1: "rnd 1 = 1"
    using is_float_int [of 1] by (simp add: is_float_rnd)
  have "\<bar>e\<bar> \<le> 2 ^ 0" using assms(13,14) by simp
  then have ef: "to_float e = Fin (rnd e)"
    by (rule to_float_finite) simp
  have eb: "0 \<le> rnd e" "rnd e \<le> 1"
    using assms(13,14) f1 by (simp_all only: rnd_nonneg rnd_le)
  define k where "k = rnd (1 - rnd e)"
  have "\<bar>1 - rnd e\<bar> \<le> 2 ^ 0" using eb by simp
  then have k: "to_float (1 - rnd e) = Fin k" "\<bar>k\<bar> \<le> 2 ^ 0"
    unfolding k_def by (rule to_float_finite, simp)+
  have damp: "fsub (Fin 1) (to_float e) = Fin k"
    by (simp only: ef fsub_Fin k(1))
  txt \<open>the impulse term of lines 175 to 178\<close>
  define g where "g = rnd (r * nx)"
  have g: "fmul (Fin r) (Fin nx) = Fin g" "\<bar>g\<bar> \<le> 2 ^ (118 + 8)"
    unfolding g_def by (rule fmul_bounded [OF r(2) nxf(2)], simp)+
  define cx where "cx = rnd (g * k)"
  have cx: "fmul (Fin g) (Fin k) = Fin cx" "\<bar>cx\<bar> \<le> 2 ^ (118 + 8 + 0)"
    unfolding cx_def by (rule fmul_bounded [OF g(2) k(2)], simp)+
  have it: "impulse_term e (Fin nx, Fin 0) st i j = (Fin cx, Fin 0)"
    unfolding impulse_term_def imp damp fst_conv snd_conv g(1) cx(1) fmul_zero_right
      fmul_zero_left ..
  txt \<open>the four values written\<close>
  have cb: "\<bar>cx\<bar> \<le> 2 ^ 126" using cx(2) by simp
  have vb': "\<bar>v1x\<bar> \<le> 2 ^ 126" "\<bar>v2x\<bar> \<le> 2 ^ 126"
    by (rule abs_le_power2 [OF vb(1)], simp, rule abs_le_power2 [OF vb(3)], simp)
  define ix where "ix = rnd (v1x - cx)"
  define jx where "jx = rnd (v2x + cx)"
  have ix: "fsub (Fin v1x) (Fin cx) = Fin ix" "\<bar>ix\<bar> \<le> 2 ^ Suc 126"
    unfolding ix_def by (rule fsub_bounded [OF vb'(1) cb], simp)+
  have jx: "fadd (Fin v2x) (Fin cx) = Fin jx" "\<bar>jx\<bar> \<le> 2 ^ Suc 126"
    unfolding jx_def by (rule fadd_bounded [OF vb'(2) cb], simp)+
  have iy: "fsub (Fin v1y) (Fin 0) = Fin v1y" and wy: "fadd (Fin v2y) (Fin 0) = Fin v2y"
    by (simp_all add: fsub_Fin vy)
  have ai: "apply_impulse i j (Fin cx, Fin 0) st = write_back i j ix v1y jx v2y st"
    by (rule apply_impulse_finite) (simp_all only: v fst_conv snd_conv ix(1) iy jx(1) wy)
  have w: "collide e i j st = write_back i j ix v1y jx v2y st" if "collides st i j"
    using that by (simp only: collide_eq if_True n it ai)
  have u: "collide e i j st = st" if "\<not> collides st i j"
    using that by (rule collide_no_hit)
  have b: "\<bar>ix\<bar> \<le> 2 ^ 127" "\<bar>jx\<bar> \<le> 2 ^ 127"
    using ix(2) jx(2) by simp_all
  have branch: "if collides st i j
      then \<exists>ix jx. \<bar>ix\<bar> \<le> 2 ^ 127 \<and> \<bar>jx\<bar> \<le> 2 ^ 127
             \<and> collide e i j st = write_back i j ix (rnd (vel st i Y)) jx (rnd (vel st j Y)) st
      else collide e i j st = st"
  proof (cases "collides st i j")
    case True
    from w [OF True] b have "\<exists>ix jx. \<bar>ix\<bar> \<le> 2 ^ 127 \<and> \<bar>jx\<bar> \<le> 2 ^ 127
        \<and> collide e i j st = write_back i j ix (rnd (vel st i Y)) jx (rnd (vel st j Y)) st"
      unfolding v1y_def v2y_def by blast
    with True show ?thesis by (simp only: if_True)
  next
    case False
    from u [OF False] False show ?thesis by (simp only: if_False)
  qed
  have nf: "nonfinite (collide e i j st) = nonfinite st"
  proof (cases "collides st i j")
    case True
    show ?thesis unfolding w [OF True] by (rule write_back_frame)
  next
    case False
    show ?thesis unfolding u [OF False] by (rule refl)
  qed
  have "\<exists>nx. normal st i j = (Fin nx, Fin 0) \<and> \<bar>nx\<bar> \<le> 2 ^ 8"
    using n nxf(2) by blast
  moreover have "1 / 2 ^ 60 \<le> radius st ! i + radius st ! j \<longrightarrow> collides st i j"
    using c by blast
  ultimately show ?thesis
    using sep n' nf branch unfolding t_def by (intro conjI)
qed

theorem coincident_centres_resolved_witness:
  "pos stacked_pair 0 X = pos stacked_pair 1 X \<and> pos stacked_pair 0 Y = pos stacked_pair 1 Y
   \<and> collides stacked_pair 0 1
   \<and> separation stacked_pair 0 1 = (Fin 1, Fin 0, Fin (13421773 / 134217728))
   \<and> \<not> nonfinite (collide 0 0 1 stacked_pair)
   \<and> vel (collide 0 0 1 stacked_pair) 0 Y = 2
   \<and> vel (collide 0 0 1 stacked_pair) 1 Y = 0
   \<and> velocities (collide 0 0 1 stacked_pair) = [- 99, 2, 100, 0]"
proof -
  have h: "pos stacked_pair 0 X = pos stacked_pair 1 X" "pos stacked_pair 0 Y = pos stacked_pair 1 Y"
    "(0::nat) \<noteq> 1" "in_store stacked_pair 0" "in_store stacked_pair 1"
    "\<bar>pos stacked_pair 0 X\<bar> \<le> 2 ^ 127" "\<bar>pos stacked_pair 0 Y\<bar> \<le> 2 ^ 127"
    "\<bar>radius stacked_pair ! 0 + radius stacked_pair ! 1\<bar> \<le> 2 ^ 4"
    "\<bar>vel stacked_pair 0 X\<bar> \<le> 2 ^ 109" "\<bar>vel stacked_pair 0 Y\<bar> \<le> 2 ^ 109"
    "\<bar>vel stacked_pair 1 X\<bar> \<le> 2 ^ 109" "\<bar>vel stacked_pair 1 Y\<bar> \<le> 2 ^ 109"
    "(0::real) \<le> 0" "(0::real) \<le> 1"
    by (simp_all add: pos_def vel_def in_store_def stacked_pair_def DIMENSION_def X_def Y_def)
  have lo: "1 / 2 ^ 60 \<le> radius stacked_pair ! 0 + radius stacked_pair ! 1"
    by (simp add: stacked_pair_def)
  have y: "vel stacked_pair 0 Y = 2" "vel stacked_pair 1 Y = 0" "\<not> nonfinite stacked_pair"
    by (simp_all add: vel_def stacked_pair_def DIMENSION_def Y_def)
  have r: "rnd 2 = 2" "rnd 0 = 0"
    using floats_small by (simp_all add: is_float_rnd)
  from coincident_centres_resolved [OF h]
  have s: "separation stacked_pair 0 1
      = (radiusSum stacked_pair 0 1, Fin 0, Fin (13421773 / 134217728))"
    and f: "nonfinite (collide 0 0 1 stacked_pair) = nonfinite stacked_pair"
    and b: "if collides stacked_pair 0 1
        then \<exists>ix jx. \<bar>ix\<bar> \<le> 2 ^ 127 \<and> \<bar>jx\<bar> \<le> 2 ^ 127
               \<and> collide 0 0 1 stacked_pair
                   = write_back 0 1 ix (rnd (vel stacked_pair 0 Y)) jx (rnd (vel stacked_pair 1 Y))
                       stacked_pair
        else collide 0 0 1 stacked_pair = stacked_pair"
    and c: "1 / 2 ^ 60 \<le> radius stacked_pair ! 0 + radius stacked_pair ! 1 \<longrightarrow>
        collides stacked_pair 0 1"
    by blast+
  from c lo have hit: "collides stacked_pair 0 1" by blast
  with b obtain ix jx where w: "collide 0 0 1 stacked_pair
      = write_back 0 1 ix (rnd (vel stacked_pair 0 Y)) jx (rnd (vel stacked_pair 1 Y)) stacked_pair"
    by (simp only: if_True) blast
  have vy: "vel (collide 0 0 1 stacked_pair) 0 Y = 2" "vel (collide 0 0 1 stacked_pair) 1 Y = 0"
    unfolding w vel_write_back [OF h(3-5)] y(1,2) r by (rule refl)+
  have nf: "\<not> nonfinite (collide 0 0 1 stacked_pair)"
    using f y(3) by simp
  have sp: "separation stacked_pair 0 1 = (Fin 1, Fin 0, Fin (13421773 / 134217728))"
    using s unfolding stacked_pair_facts(5) .
  have "velocities (collide 0 0 1 stacked_pair) = [- 99, 2, 100, 0]"
    unfolding stacked_pair_collide by simp
  with hit sp nf vy h(1,2) show ?thesis
    by (intro conjI)
qed

subsection \<open>Two pair blocks that overlap in time\<close>

lemma to_float_line:
  "to_float 9 = Fin 9" "to_float 12 = Fin 12" "to_float (21 / 2) = Fin (21 / 2)"
  "to_float (- (3 / 2)) = Fin (- (3 / 2))"
  using is_float_int [of 9] is_float_int [of 12] is_float_dyadic [of 21 1]
    is_float_dyadic [of "- 3" 1]
  by (simp_all add: is_float_def)

lemma static_cast_int_line:
  "static_cast_int (Fin 9) = Some 9" "static_cast_int (Fin 12) = Some 12"
  "static_cast_int (Fin (21 / 2)) = Some 10"
  by (simp_all add: static_cast_int_def truncation_def Let_def)

lemma upt_3: "[0..<3] = [0, 1, 2]"
  by (simp add: upt_rec)

lemma build_grid_shared_neighbour:
  "build_grid 3 shared_neighbour = Some [CellKey 0 0 \<mapsto> [0], CellKey 1 0 \<mapsto> [1, 2]]"
  by (simp add: build_grid_def upt_3 grid_insert_def computeCellKey_def static_cast_float_def
      pos_def shared_neighbour_def DIMENSION_def X_def Y_def Let_def
      to_float_line static_cast_int_line static_cast_int_small sdiv_small
      signed_divide_int_def CELL_SIZE_def)

lemma scan_shared_neighbour:
  "thread_ranges 2 (length [CellKey 0 0, CellKey 1 0]) = [(0, 1), (1, 2)]"
  "scan_pairs [CellKey 0 0 \<mapsto> [0], CellKey 1 0 \<mapsto> [1, 2]] [CellKey 0 0, CellKey 1 0] 0 1
     = [(0, 1), (0, 2)]"
  "scan_pairs [CellKey 0 0 \<mapsto> [0], CellKey 1 0 \<mapsto> [1, 2]] [CellKey 0 0, CellKey 1 0] 1 2
     = [(1, 2)]"
  by (simp_all add: thread_ranges_def spawn_thread_def upt_small Let_def
      scan_pairs_def cell_pairs_def intra_pairs_def inter_pairs_def neighbor_pairs_def
      upt_rec)

lemma shared_neighbour_reads:
  "pair_read 0 0 2 shared_neighbour = Some (Fin 0, Fin 0, Fin 1, Fin 0)"
  "pair_read 0 1 2 shared_neighbour = Some (Fin 0, Fin 0, Fin (- 1), Fin 0)"
  by (simp_all add: pair_read_def Let_def static_cast_float_def pos_def vel_def
      shared_neighbour_def DIMENSION_def X_def Y_def fsub_Fin sqrt_9_4
      to_float_small to_float_line)

lemma shared_neighbour_interleaved:
  "pair_write 1 2 (Fin 0, Fin 0, Fin (- 1), Fin 0)
     (pair_write 0 2 (Fin 0, Fin 0, Fin 1, Fin 0) shared_neighbour)
   = shared_neighbour\<lparr>velocities := [0, 0, 0, 0, - 1, 0], detected := [(0, 2), (1, 2)]\<rparr>"
  by (simp add: pair_write_def store_vel_def set_vel_def Let_def shared_neighbour_def
      DIMENSION_def X_def Y_def)

lemma shared_neighbour_sequential:
  "collide 0 1 2 (collide 0 0 2 shared_neighbour)
   = shared_neighbour\<lparr>velocities := [0, 0, 1, 0, - 1, 0], detected := [(0, 2), (1, 2)]\<rparr>"
proof -
  have a: "collide 0 0 2 shared_neighbour
      = shared_neighbour\<lparr>velocities := [0, 0, - 1, 0, 1, 0], detected := [(0, 2)]\<rparr>"
    unfolding collide_def shared_neighbour_reads option.case
    by (simp add: pair_write_def store_vel_def set_vel_def Let_def shared_neighbour_def
        DIMENSION_def X_def Y_def)
  have b: "pair_read 0 1 2
        (shared_neighbour\<lparr>velocities := [0, 0, - 1, 0, 1, 0], detected := [(0, 2)]\<rparr>)
      = Some (Fin 1, Fin 0, Fin (- 1), Fin 0)"
    by (simp add: pair_read_def Let_def static_cast_float_def pos_def vel_def
        shared_neighbour_def DIMENSION_def X_def Y_def fsub_Fin sqrt_9_4
        to_float_small to_float_line to_float_more)
  show ?thesis
    unfolding a collide_def [of 0 1 2] b option.case
    by (simp add: pair_write_def store_vel_def set_vel_def Let_def shared_neighbour_def
        DIMENSION_def X_def Y_def)
qed

text \<open>
  The statements above are about pair blocks that run one after the other. The program
  reads the velocities before it takes the lock (lines 165 to 168 and 213 to 216), so
  two threads can read the velocity of a particle they share before either writes. In
  \<^const>\<open>shared_neighbour\<close> the pairs \<open>(0, 2)\<close> and \<open>(1, 2)\<close> belong to the ranges of two different
  threads. If both blocks read first and write afterwards, the update of particle 2 by
  the first block is lost: the \<open>X\<close> velocities end as \<open>0, 0, -1\<close> and their sum changes
  from 0 to \<open>-1\<close>, although every operation is exact, where the two blocks run one
  after the other in this order give \<open>0, 1, -1\<close> and keep the sum.
\<close>

lemma stale_read_loses_update:
  "build_grid 3 shared_neighbour = Some [CellKey 0 0 \<mapsto> [0], CellKey 1 0 \<mapsto> [1, 2]]
   \<and> thread_ranges 2 (length [CellKey 0 0, CellKey 1 0]) = [(0, 1), (1, 2)]
   \<and> (0, 2) \<in> set (scan_pairs [CellKey 0 0 \<mapsto> [0], CellKey 1 0 \<mapsto> [1, 2]]
                      [CellKey 0 0, CellKey 1 0] 0 1)
   \<and> (1, 2) \<in> set (scan_pairs [CellKey 0 0 \<mapsto> [0], CellKey 1 0 \<mapsto> [1, 2]]
                      [CellKey 0 0, CellKey 1 0] 1 2)
   \<and> pair_read 0 0 2 shared_neighbour = Some (Fin 0, Fin 0, Fin 1, Fin 0)
   \<and> pair_read 0 1 2 shared_neighbour = Some (Fin 0, Fin 0, Fin (- 1), Fin 0)
   \<and> velocities (pair_write 1 2 (Fin 0, Fin 0, Fin (- 1), Fin 0)
                   (pair_write 0 2 (Fin 0, Fin 0, Fin 1, Fin 0) shared_neighbour))
       = [0, 0, 0, 0, - 1, 0]
   \<and> velocities (collide 0 1 2 (collide 0 0 2 shared_neighbour)) = [0, 0, 1, 0, - 1, 0]
   \<and> velocities shared_neighbour = [1, 0, - 1, 0, 0, 0]"
  unfolding shared_neighbour_interleaved shared_neighbour_sequential scan_shared_neighbour
    build_grid_shared_neighbour shared_neighbour_reads
  by (simp add: shared_neighbour_def)

end
